theory Spec2Isabelle
  imports Main "HOL-Library.Word"
begin

section \<open>Text and character classes\<close>

text \<open>
  Command text is a Python \<open>str\<close>. It is modelled as a \<open>string\<close> whose characters stand
  for the code points U+0000 to U+00FF, one \<open>char\<close> per code point. The classes below are
  the ones Python's \<open>re\<close> module uses for a \<open>str\<close> pattern on that range.
\<close>

definition newline :: char where
  "newline = CHR 0x0A"

definition backslash :: char where
  "backslash = CHR 0x5C"

definition is_space :: "char \<Rightarrow> bool" where
  \<comment> \<open>the class \<open>\s\<close>, and the characters \<open>str.strip()\<close> removes\<close>
  "is_space c = (let n = (of_char c :: nat) in
     (9 \<le> n \<and> n \<le> 13) \<or> (28 \<le> n \<and> n \<le> 32) \<or> n = 133 \<or> n = 160)"

definition is_word :: "char \<Rightarrow> bool" where
  \<comment> \<open>the class \<open>\w\<close>: alphanumeric characters and the underscore\<close>
  "is_word c = (let n = (of_char c :: nat) in
     (48 \<le> n \<and> n \<le> 57) \<or> (65 \<le> n \<and> n \<le> 90) \<or> n = 95 \<or> (97 \<le> n \<and> n \<le> 122)
     \<or> n = 170 \<or> n = 178 \<or> n = 179 \<or> n = 181 \<or> n = 185 \<or> n = 186
     \<or> (188 \<le> n \<and> n \<le> 190) \<or> (192 \<le> n \<and> n \<le> 214) \<or> (216 \<le> n \<and> n \<le> 246)
     \<or> (248 \<le> n \<and> n \<le> 255))"

definition is_name_char :: "char \<Rightarrow> bool" where
  \<comment> \<open>the class \<open>[\w\-_./\\]\<close>\<close>
  "is_name_char c = (is_word c \<or> c = CHR ''-'' \<or> c = CHR ''_'' \<or> c = CHR ''.''
     \<or> c = CHR ''/'' \<or> c = backslash)"

definition is_dot :: "char \<Rightarrow> bool" where
  \<comment> \<open>the class \<open>.\<close> (without DOTALL): anything but a line feed\<close>
  "is_dot c = (c \<noteq> newline)"

definition strip :: "string \<Rightarrow> string" where
  \<comment> \<open>\<open>str.strip()\<close>\<close>
  "strip s = rev (dropWhile is_space (rev (dropWhile is_space s)))"

section \<open>Regular expressions with backtracking\<close>

text \<open>
  The fragment of Python's regular expressions that \<open>command_regex\<close> and
  \<open>config_root_regex\<close> are written in. Repetition is greedy and is only applied to
  character classes, as in the two patterns. The anchor \<open>^\<close> is not a constructor:
  \<open>re.match\<close> only ever tries position 0.
\<close>

datatype regex =
    Cls "char \<Rightarrow> bool"
  | Str string
  | Seq regex regex
  | Alt regex regex
  | Opt regex
  | Star "char \<Rightarrow> bool"
  | Grp nat regex
  | Eol

type_synonym captures = "nat \<rightharpoonup> string"

text \<open>
  \<open>rmatch r s c k\<close> matches \<open>r\<close> at the front of \<open>s\<close> and hands the rest of the input and the
  groups captured so far to the continuation \<open>k\<close>; when \<open>k\<close> fails the matcher backtracks
  into \<open>r\<close> in the order Python's engine does: the first alternative before the second,
  the optional part present before absent, the longest repetition before the shorter ones.
\<close>

fun rmatch :: "regex \<Rightarrow> string \<Rightarrow> captures \<Rightarrow> (string \<Rightarrow> captures \<Rightarrow> captures option)
    \<Rightarrow> captures option" where
  "rmatch (Cls p) s c k =
     (case s of [] \<Rightarrow> None | x # xs \<Rightarrow> if p x then k xs c else None)"
| "rmatch (Str w) s c k =
     (if take (length w) s = w then k (drop (length w) s) c else None)"
| "rmatch (Seq a b) s c k = rmatch a s c (\<lambda>s' c'. rmatch b s' c' k)"
| "rmatch (Alt a b) s c k =
     (case rmatch a s c k of Some m \<Rightarrow> Some m | None \<Rightarrow> rmatch b s c k)"
| "rmatch (Opt a) s c k =
     (case rmatch a s c k of Some m \<Rightarrow> Some m | None \<Rightarrow> k s c)"
| "rmatch (Star p) s c k =
     (case s of
        [] \<Rightarrow> k s c
      | x # xs \<Rightarrow>
          if p x then (case rmatch (Star p) xs c k of Some m \<Rightarrow> Some m | None \<Rightarrow> k s c)
          else k s c)"
| "rmatch (Grp n a) s c k =
     rmatch a s c (\<lambda>s' c'. k s' (c'(n \<mapsto> take (length s - length s') s)))"
| "rmatch Eol s c k = (if s = [] \<or> s = [newline] then k s c else None)"

definition Plus :: "(char \<Rightarrow> bool) \<Rightarrow> regex" where
  "Plus p = Seq (Cls p) (Star p)"

definition re_match :: "regex \<Rightarrow> string \<Rightarrow> captures option" where
  \<comment> \<open>\<open>re.match(pattern, text)\<close>: the match need not reach the end of the text\<close>
  "re_match r s = rmatch r s Map.empty (\<lambda>s' c. Some c)"

definition command_regex :: regex where
  \<comment> \<open>\<open>^(!)?\s*([\w\-_./\\]+)(?:\s*(=)|\s+|$)(.*)\<close>\<close>
  "command_regex =
     Seq (Opt (Grp 1 (Str ''!'')))
    (Seq (Star is_space)
    (Seq (Grp 2 (Plus is_name_char))
    (Seq (Alt (Seq (Star is_space) (Grp 3 (Str ''=''))) (Alt (Plus is_space) Eol))
         (Grp 4 (Star is_dot)))))"

definition config_root_regex :: regex where
  \<comment> \<open>\<open>^\s*(prapti\.)?(config_root)\s*(=)\s*(true)\s*\<close>\<close>
  "config_root_regex =
     Seq (Star is_space)
    (Seq (Opt (Grp 1 (Str ''prapti.'')))
    (Seq (Grp 2 (Str ''config_root''))
    (Seq (Star is_space)
    (Seq (Grp 3 (Str ''=''))
    (Seq (Star is_space)
    (Seq (Grp 4 (Str ''true''))
         (Star is_space)))))))"

section \<open>Messages, commands and the execution state\<close>

text \<open>
  Modelled from the spec: the classes \<open>SourceLocation\<close>, \<open>Command\<close>, \<open>Message\<close>,
  \<open>DiagnosticsLogger\<close>, \<open>Action\<close> and \<open>ActionContext\<close> are imported by the interpreter from
  modules that are not part of the sources at hand; their fields are the ones the
  interpreter and the plugins read and write. Python objects have an identity, which
  \<open>interpret_commands\<close> compares with \<open>is\<close>: a message carries it as \<open>msg_ref\<close> and a
  command as \<open>cmd_ref\<close>. The mutable \<open>result\<close> slot of a command lives in a store indexed
  by \<open>cmd_ref\<close>.
\<close>

datatype SourceLocation = SourceLocation (file_path: string) (line: nat) (column: nat)

record Command =
  cmd_ref :: nat
  cmd_text :: string
  cmd_is_enabled :: bool
  cmd_source_loc :: SourceLocation

datatype item = Text string | Cmd Command

record Message =
  msg_ref :: nat
  role :: string
  name :: "string option"
  content :: "item list"
  is_enabled :: bool
  is_private :: bool
  source_loc :: SourceLocation

datatype result = RNone | RStr string | RMessage Message

type_synonym result_slots = "nat \<Rightarrow> result"

datatype severity = Debug | Info | Warning | Error

record Diagnostic =
  level :: severity
  code :: string
  message :: string
  loc :: SourceLocation

record 'pc Action =
  qualified_name :: string
  exclamation_only :: bool
  plugin_config :: 'pc

text \<open>
  The dataclass \<open>ExecutionState\<close>. The fields \<open>selected_responder_context\<close> and
  \<open>test_exfil\<close>, which the interpreter never touches, belong to the extension of the
  record. \<open>private_core_state\<close> is the value \<open>get_private_core_state\<close> returns.
\<close>

record ('cfg, 'core) ExecutionState =
  log :: "Diagnostic list"
  input_file_path :: string
  user_prapti_config_dir :: "string option"
  prapticonfig_dirs :: "string list"
  root_config :: 'cfg
  message_sequence :: "Message list"
  responses :: "Message list"
  private_core_state :: 'core

type_synonym ('cfg, 'core, 'z) state = "('cfg, 'core, 'z) ExecutionState_scheme"

record ('cfg, 'pc) ActionContext =
  ctx_root_config :: 'cfg
  ctx_plugin_config :: 'pc
  ctx_source_loc :: SourceLocation
  ctx_log :: "Diagnostic list"

datatype error = IndexError | Raised string

text \<open>
  The three collaborators the interpreter calls and the sources at hand do not define:
  the registry's \<open>lookup_action\<close>, the configuration module's \<open>assign_field\<close> (it receives
  the root configuration and the log and may update both), and the function of an action,
  which runs on the whole execution state and either returns a result or raises.
\<close>

record ('cfg, 'core, 'pc, 'z) Env =
  lookup_action :: "'core \<Rightarrow> string \<Rightarrow> 'pc Action list"
  assign_field :: "'cfg \<Rightarrow> string \<Rightarrow> string \<Rightarrow> SourceLocation \<Rightarrow> Diagnostic list
     \<Rightarrow> 'cfg \<times> Diagnostic list"
  action_function :: "'pc Action \<Rightarrow> string \<Rightarrow> string \<Rightarrow> ('cfg, 'pc) ActionContext
     \<Rightarrow> ('cfg, 'core, 'z) state \<Rightarrow> error + (result \<times> ('cfg, 'core, 'z) state)"

definition log_error :: "('cfg, 'core, 'z) state \<Rightarrow> string \<Rightarrow> string \<Rightarrow> SourceLocation
    \<Rightarrow> ('cfg, 'core, 'z) state" where
  \<comment> \<open>\<open>state.log.error(code, message, source_loc)\<close>\<close>
  "log_error state c msg sl =
     state\<lparr>log := log state @ [\<lparr>level = Error, code = c, message = msg, loc = sl\<rparr>]\<rparr>"

definition quoted :: "string \<Rightarrow> string" where
  \<comment> \<open>a text between single quotes, as the messages show names and commands\<close>
  "quoted s = [CHR 0x27] @ s @ [CHR 0x27]"

section \<open>Running an action\<close>

fun join :: "string \<Rightarrow> string list \<Rightarrow> string" where
  \<comment> \<open>\<open>sep.join(xs)\<close>\<close>
  "join sep [] = []"
| "join sep [x] = x"
| "join sep (x # y # ys) = x @ sep @ join sep (y # ys)"

definition join_alternatives :: "string list \<Rightarrow> error + string" where
  \<comment> \<open>\<open>_join_alternatives\<close>; \<open>alternatives[-1]\<close> raises on the empty list\<close>
  "join_alternatives alternatives =
     (if alternatives = [] then Inl IndexError
      else Inr (join '', '' (butlast alternatives) @ '' or '' @ last alternatives))"

definition run_action :: "('cfg, 'core, 'pc, 'z) Env \<Rightarrow> bool \<Rightarrow> string \<Rightarrow> string
    \<Rightarrow> SourceLocation \<Rightarrow> ('cfg, 'core, 'z) state
    \<Rightarrow> error + (result \<times> ('cfg, 'core, 'z) state)" where
  "run_action env has_exclamation action_name raw_args sl state =
     (let core_state = private_core_state state;
          matches = lookup_action env core_state action_name
      in case matches of
           [] \<Rightarrow>
             Inr (RNone, log_error state ''action-not-found''
               (''couldn't run action '' @ quoted action_name @ ''. action not found.'') sl)
         | [action] \<Rightarrow>
             if exclamation_only action \<and> \<not> has_exclamation then
               Inr (RNone, log_error state ''excl-only-action-without-excl''
                 (''didn't run action '' @ quoted action_name
                    @ ''. action is !-only but written without a '' @ quoted ''!'') sl)
             else
               action_function env action action_name raw_args
                 \<lparr>ctx_root_config = root_config state, ctx_plugin_config = plugin_config action,
                  ctx_source_loc = sl, ctx_log = log state\<rparr> state
         | _ \<Rightarrow>
             (case join_alternatives (map qualified_name matches) of
                Inl e \<Rightarrow> Inl e
              | Inr alternatives \<Rightarrow>
                  Inr (RNone, log_error state ''ambiguous-action-name''
                    (''didn't run action '' @ quoted action_name
                       @ ''. action name is ambiguous, did you mean: '' @ alternatives) sl)))"

section \<open>Interpreting commands\<close>

definition truthy :: "string option \<Rightarrow> bool" where
  \<comment> \<open>the truth value of \<open>match.group(n)\<close>: neither \<open>None\<close> nor the empty string\<close>
  "truthy g = (case g of None \<Rightarrow> False | Some s \<Rightarrow> s \<noteq> [])"

definition group_text :: "string option \<Rightarrow> string" where
  \<comment> \<open>the text of a group that took part in the match\<close>
  "group_text g = (case g of None \<Rightarrow> [] | Some s \<Rightarrow> s)"

definition interpret_command :: "('cfg, 'core, 'pc, 'z) Env \<Rightarrow> string \<Rightarrow> bool
    \<Rightarrow> SourceLocation \<Rightarrow> ('cfg, 'core, 'z) state
    \<Rightarrow> error + (result \<times> ('cfg, 'core, 'z) state)" where
  \<comment> \<open>\<open>_interpret_command\<close>\<close>
  "interpret_command env command_text is_final_message sl state =
     (case re_match command_regex command_text of
        Some m \<Rightarrow>
          (let has_exclamation = truthy (m 1);
               name = group_text (m 2);
               equals_sign = m 3;
               rhs = (if truthy (m 4) then strip (group_text (m 4)) else [])
           in if \<not> has_exclamation \<or> (has_exclamation \<and> is_final_message) then
                if truthy equals_sign then
                  if length rhs = 0 then
                    Inr (RNone, log_error state ''skiping-empty-assignment''
                      (''skipping configuration assignment with no right-hand-side ''
                         @ quoted command_text) sl)
                  else
                    (case assign_field env (root_config state) name rhs sl (log state) of
                       (cfg', log') \<Rightarrow> Inr (RNone, state\<lparr>log := log', root_config := cfg'\<rparr>))
                else run_action env has_exclamation name rhs sl state
              else Inr (RNone, state))
      | None \<Rightarrow>
          Inr (RNone, log_error state ''unknown-command''
            (''couldn't interpret command '' @ quoted command_text) sl))"

definition is_same :: "Message \<Rightarrow> Message option \<Rightarrow> bool" where
  \<comment> \<open>\<open>message is final_message\<close>, where \<open>final_message\<close> may be \<open>None\<close>\<close>
  "is_same m final_message =
     (case final_message of None \<Rightarrow> False | Some f \<Rightarrow> msg_ref m = msg_ref f)"

fun interpret_items :: "('cfg, 'core, 'pc, 'z) Env \<Rightarrow> bool \<Rightarrow> item list
    \<Rightarrow> ('cfg, 'core, 'z) state \<times> result_slots
    \<Rightarrow> error + (('cfg, 'core, 'z) state \<times> result_slots)" where
  \<comment> \<open>the loop over \<open>message.content\<close>\<close>
  "interpret_items env is_final_message [] w = Inr w"
| "interpret_items env is_final_message (Text t # items) w =
     interpret_items env is_final_message items w"
| "interpret_items env is_final_message (Cmd c # items) (state, slots) =
     (if cmd_is_enabled c then
        (case interpret_command env (cmd_text c) is_final_message (cmd_source_loc c) state of
           Inl e \<Rightarrow> Inl e
         | Inr (r, state') \<Rightarrow>
             interpret_items env is_final_message items (state', slots(cmd_ref c := r)))
      else interpret_items env is_final_message items (state, slots))"

fun interpret_messages :: "('cfg, 'core, 'pc, 'z) Env \<Rightarrow> Message option \<Rightarrow> Message list
    \<Rightarrow> ('cfg, 'core, 'z) state \<times> result_slots
    \<Rightarrow> error + (('cfg, 'core, 'z) state \<times> result_slots)" where
  \<comment> \<open>the loop over \<open>message_sequence\<close>\<close>
  "interpret_messages env final_message [] w = Inr w"
| "interpret_messages env final_message (m # ms) w =
     (if is_enabled m then
        (case interpret_items env (is_same m final_message) (content m) w of
           Inl e \<Rightarrow> Inl e
         | Inr w' \<Rightarrow> interpret_messages env final_message ms w')
      else interpret_messages env final_message ms w)"

definition interpret_commands :: "('cfg, 'core, 'pc, 'z) Env \<Rightarrow> Message list
    \<Rightarrow> ('cfg, 'core, 'z) state \<times> result_slots \<Rightarrow> bool
    \<Rightarrow> error + (('cfg, 'core, 'z) state \<times> result_slots)" where
  "interpret_commands env msgs w is_final_sequence =
     (if is_final_sequence then
        (if msgs = [] then Inl IndexError
         else interpret_messages env (Some (last msgs)) msgs w)
      else interpret_messages env None msgs w)"

section \<open>Detecting a configuration root\<close>

fun items_config_root :: "item list \<Rightarrow> bool" where
  \<comment> \<open>the loop over \<open>message.content\<close> in \<open>is_config_root\<close>\<close>
  "items_config_root [] = False"
| "items_config_root (Text t # items) = items_config_root items"
| "items_config_root (Cmd c # items) =
     (if cmd_is_enabled c then
        (if re_match config_root_regex (cmd_text c) \<noteq> None then True
         else items_config_root items)
      else items_config_root items)"

fun is_config_root :: "Message list \<Rightarrow> bool" where
  "is_config_root [] = False"
| "is_config_root (m # ms) =
     (if is_enabled m then
        (if items_config_root (content m) then True else is_config_root ms)
      else is_config_root ms)"

section \<open>The command pattern, piece by piece\<close>

text \<open>
  The sub-patterns of \<open>command_regex\<close> and, beside them, what each one accepts written
  as a function on the input: \<open>command_parts\<close> reads a command text from left to right
  without backtracking and returns the four values \<open>_interpret_command\<close> takes from the
  match (\<open>has_exclamation\<close>, \<open>name\<close>, whether there is an equals sign, \<open>rhs\<close>).
\<close>

definition tail_regex :: regex where
  \<comment> \<open>\<open>(?:\s*(=)|\s+|$)(.*)\<close>\<close>
  "tail_regex =
     Seq (Alt (Seq (Star is_space) (Grp 3 (Str ''=''))) (Alt (Plus is_space) Eol))
         (Grp 4 (Star is_dot))"

definition name_regex :: regex where
  \<comment> \<open>\<open>([\w\-_./\\]+)(?:\s*(=)|\s+|$)(.*)\<close>\<close>
  "name_regex = Seq (Grp 2 (Plus is_name_char)) tail_regex"

definition rest_regex :: regex where
  \<comment> \<open>\<open>\s*([\w\-_./\\]+)(?:\s*(=)|\s+|$)(.*)\<close>\<close>
  "rest_regex = Seq (Star is_space) name_regex"

definition accept :: "string \<Rightarrow> captures \<Rightarrow> captures option" where
  \<comment> \<open>the continuation of \<open>re.match\<close>: whatever is left, the match stands\<close>
  "accept s c = Some c"

definition rest_of_line :: "string \<Rightarrow> captures \<Rightarrow> captures option" where
  \<comment> \<open>what \<open>(.*)\<close> does at the end of the pattern\<close>
  "rest_of_line s c = Some (c(4 \<mapsto> takeWhile is_dot s))"

definition tail_parse :: "string \<Rightarrow> captures \<Rightarrow> captures option" where
  "tail_parse s c =
     (let t4 = dropWhile is_space s in
      if t4 \<noteq> [] \<and> hd t4 = CHR ''='' then
        Some (c(3 \<mapsto> ''='', 4 \<mapsto> takeWhile is_dot (tl t4)))
      else if s = [] \<or> is_space (hd s) then Some (c(4 \<mapsto> takeWhile is_dot t4))
      else None)"

definition parse_command :: "string \<Rightarrow> captures option" where
  "parse_command t =
     (let b = (t \<noteq> [] \<and> hd t = CHR ''!'');
          t2 = dropWhile is_space (if b then tl t else t);
          nm = takeWhile is_name_char t2
      in if nm = [] then None
         else tail_parse (dropWhile is_name_char t2)
                ((if b then [1 \<mapsto> ''!''] else Map.empty)(2 \<mapsto> nm)))"

definition tail_parts :: "bool \<Rightarrow> string \<Rightarrow> string \<Rightarrow> (bool \<times> string \<times> bool \<times> string) option" where
  \<comment> \<open>what follows the name: an equals sign and a value, or arguments, or nothing\<close>
  "tail_parts b nm s =
     (let t4 = dropWhile is_space s in
      if t4 \<noteq> [] \<and> hd t4 = CHR ''='' then
        Some (b, nm, True, strip (takeWhile is_dot (tl t4)))
      else if s = [] \<or> is_space (hd s) then
        Some (b, nm, False, strip (takeWhile is_dot t4))
      else None)"

definition command_parts :: "string \<Rightarrow> (bool \<times> string \<times> bool \<times> string) option" where
  "command_parts t =
     (let b = (t \<noteq> [] \<and> hd t = CHR ''!'');
          t2 = dropWhile is_space (if b then tl t else t);
          nm = takeWhile is_name_char t2
      in if nm = [] then None else tail_parts b nm (dropWhile is_name_char t2))"

definition match_parts :: "captures \<Rightarrow> bool \<times> string \<times> bool \<times> string" where
  \<comment> \<open>the four values \<open>_interpret_command\<close> reads off a match object\<close>
  "match_parts m =
     (truthy (m 1), group_text (m 2), truthy (m 3),
      if truthy (m 4) then strip (group_text (m 4)) else [])"

definition read_command :: "string \<Rightarrow> (bool \<times> string \<times> bool \<times> string) option" where
  \<comment> \<open>the match of \<open>command_regex\<close> and the four values read off it\<close>
  "read_command t = map_option match_parts (re_match command_regex t)"

definition dispatch :: "('cfg, 'core, 'pc, 'z) Env \<Rightarrow> string \<Rightarrow> bool \<Rightarrow> SourceLocation
    \<Rightarrow> ('cfg, 'core, 'z) state \<Rightarrow> (bool \<times> string \<times> bool \<times> string) option
    \<Rightarrow> error + (result \<times> ('cfg, 'core, 'z) state)" where
  \<comment> \<open>the body of \<open>_interpret_command\<close> once the match has been read\<close>
  "dispatch env t fm sl st parts =
     (case parts of
        None \<Rightarrow>
          Inr (RNone, log_error st ''unknown-command''
            (''couldn't interpret command '' @ quoted t) sl)
      | Some (b, nm, eq, rhs) \<Rightarrow>
          if \<not> b \<or> fm then
            (if eq then
               (if rhs = [] then
                  Inr (RNone, log_error st ''skiping-empty-assignment''
                    (''skipping configuration assignment with no right-hand-side ''
                       @ quoted t) sl)
                else
                  (case assign_field env (root_config st) nm rhs sl (log st) of
                     (cfg', log') \<Rightarrow> Inr (RNone, st\<lparr>log := log', root_config := cfg'\<rparr>)))
             else run_action env b nm rhs sl st)
          else Inr (RNone, st))"

section \<open>The commands a pass visits\<close>

text \<open>
  The enabled commands of the enabled messages, in document order, each with the value
  of \<open>is_final_message\<close> it is interpreted under, and the effect of interpreting them
  one after the other.
\<close>

fun enabled_commands :: "item list \<Rightarrow> Command list" where
  "enabled_commands [] = []"
| "enabled_commands (Text t # items) = enabled_commands items"
| "enabled_commands (Cmd c # items) =
     (if cmd_is_enabled c then c # enabled_commands items else enabled_commands items)"

definition message_visits :: "Message option \<Rightarrow> Message \<Rightarrow> (bool \<times> Command) list" where
  "message_visits final_message m =
     (if is_enabled m then map (Pair (is_same m final_message)) (enabled_commands (content m))
      else [])"

definition visits :: "bool \<Rightarrow> Message list \<Rightarrow> (bool \<times> Command) list" where
  "visits is_final_sequence msgs =
     concat (map (message_visits (if is_final_sequence then Some (last msgs) else None)) msgs)"

definition visit :: "('cfg, 'core, 'pc, 'z) Env \<Rightarrow> bool \<times> Command
    \<Rightarrow> ('cfg, 'core, 'z) state \<times> result_slots
    \<Rightarrow> error + (('cfg, 'core, 'z) state \<times> result_slots)" where
  "visit env v w =
     (case interpret_command env (cmd_text (snd v)) (fst v) (cmd_source_loc (snd v)) (fst w) of
        Inl e \<Rightarrow> Inl e
      | Inr (r, state') \<Rightarrow> Inr (state', (snd w)(cmd_ref (snd v) := r)))"

fun run_visits :: "('cfg, 'core, 'pc, 'z) Env \<Rightarrow> (bool \<times> Command) list
    \<Rightarrow> ('cfg, 'core, 'z) state \<times> result_slots
    \<Rightarrow> error + (('cfg, 'core, 'z) state \<times> result_slots)" where
  "run_visits env [] w = Inr w"
| "run_visits env (v # vs) w =
     (case visit env v w of Inl e \<Rightarrow> Inl e | Inr w' \<Rightarrow> run_visits env vs w')"

definition no_raise :: "('cfg, 'core, 'pc, 'z) Env \<Rightarrow> bool" where
  \<comment> \<open>no action function of the environment raises\<close>
  "no_raise env =
     (\<forall>a n args ctx st. \<exists>r st'. action_function env a n args ctx st = Inr (r, st'))"

definition occurs_in :: "string \<Rightarrow> string \<Rightarrow> bool" where
  \<comment> \<open>\<open>u in s\<close> on Python strings\<close>
  "occurs_in u s = (\<exists>pre post. s = pre @ u @ post)"

section \<open>Configuration: assignment and late-bound variables\<close>

text \<open>
  Modelled from the spec: the configuration module (\<open>RootConfiguration\<close>, \<open>assign_field\<close>,
  \<open>VarRef\<close>, \<open>resolve_var_refs\<close>) is not part of the sources at hand. Following sections
  3, 4.3, 4.4 and 9 of the specification, the root configuration is a tree of fields
  addressed by dotted path; a field has a declared type, a current value and a flag
  telling whether it was explicitly assigned since its default. A Python \<open>float\<close> is
  carried as its IEEE 754 binary64 bit pattern; no arithmetic is done on it. The textual
  forms the conversion accepts are not specified, so the conversion is a parameter.
\<close>

datatype field_type = TBool | TInt | TFloat | TStr | TList field_type

datatype cvalue = VBool bool | VInt int | VFloat "64 word" | VStr string | VList "cvalue list"

record ConfigField =
  declared_type :: field_type
  field_value :: cvalue
  explicitly_assigned :: bool

type_synonym RootConfiguration = "string \<rightharpoonup> ConfigField"

definition assign_field_spec :: "(field_type \<Rightarrow> string \<Rightarrow> cvalue option) \<Rightarrow> RootConfiguration
    \<Rightarrow> string \<Rightarrow> string \<Rightarrow> SourceLocation \<Rightarrow> Diagnostic list
    \<Rightarrow> RootConfiguration \<times> Diagnostic list" where
  \<comment> \<open>Modelled from the spec: \<open>assign_field\<close>, section 4.3\<close>
  "assign_field_spec convert root dotted_name rhs sl lg =
     (case root dotted_name of
        None \<Rightarrow>
          (root, lg @ [\<lparr>level = Error, code = ''field-not-found'',
             message = ''no configuration field '' @ quoted dotted_name, loc = sl\<rparr>])
      | Some f \<Rightarrow>
          (case convert (declared_type f) rhs of
             None \<Rightarrow>
               (root, lg @ [\<lparr>level = Error, code = ''type-conversion-failure'',
                  message = ''could not convert '' @ quoted rhs, loc = sl\<rparr>])
           | Some v \<Rightarrow>
               (root(dotted_name \<mapsto> f\<lparr>field_value := v, explicitly_assigned := True\<rparr>), lg)))"

datatype VarRef = VarRef (var_name: string)

record Configuration =
  field_values :: "(string \<times> cvalue) list"
  var_refs :: "(string \<times> VarRef) list"

definition effective_value :: "RootConfiguration \<Rightarrow> (string \<times> VarRef) list \<Rightarrow> string \<Rightarrow> cvalue
    \<Rightarrow> cvalue" where
  \<comment> \<open>Modelled from the spec: the effective value of one field, section 4.4\<close>
  "effective_value root refs field_name local_value =
     (case map_of refs field_name of
        None \<Rightarrow> local_value
      | Some ref \<Rightarrow>
          (case root (var_name ref) of
             None \<Rightarrow> local_value
           | Some f \<Rightarrow> if explicitly_assigned f then field_value f else local_value))"

definition resolve_var_refs :: "Configuration \<Rightarrow> RootConfiguration \<Rightarrow> Configuration" where
  \<comment> \<open>Modelled from the spec: \<open>resolve_var_refs\<close>, a resolved copy, section 4.4\<close>
  "resolve_var_refs config root =
     config\<lparr>field_values := map (\<lambda>(n, v). (n, effective_value root (var_refs config) n v))
                         (field_values config)\<rparr>"

definition get_field :: "Configuration \<Rightarrow> string \<Rightarrow> cvalue option" where
  \<comment> \<open>reading an attribute of a configuration object\<close>
  "get_field config field_name = map_of (field_values config) field_name"

definition TestResponderConfiguration :: "(string \<times> cvalue) list" where
  \<comment> \<open>the defaults of the class \<open>TestResponderConfiguration\<close>\<close>
  "TestResponderConfiguration =
     [(''a_bool'', VBool False), (''an_int'', VInt 0), (''a_float'', VFloat 0),
      (''a_string'', VStr ''test''), (''a_list_of_strings'', VList []),
      (''temperature'', VInt 1), (''model'', VStr ''test''), (''n'', VInt 1)]"

definition construct_configuration :: Configuration where
  \<comment> \<open>\<open>TestResponder.construct_configuration\<close>\<close>
  "construct_configuration =
     \<lparr>field_values = TestResponderConfiguration,
      var_refs = [(''model'', VarRef ''model''), (''temperature'', VarRef ''temperature''),
                  (''n'', VarRef ''n'')]\<rparr>"

definition spec_env :: "(field_type \<Rightarrow> string \<Rightarrow> cvalue option)
    \<Rightarrow> ('core \<Rightarrow> string \<Rightarrow> 'pc Action list)
    \<Rightarrow> ('pc Action \<Rightarrow> string \<Rightarrow> string \<Rightarrow> (RootConfiguration, 'pc) ActionContext
         \<Rightarrow> (RootConfiguration, 'core, 'z) state
         \<Rightarrow> error + (result \<times> (RootConfiguration, 'core, 'z) state))
    \<Rightarrow> (RootConfiguration, 'core, 'pc, 'z) Env" where
  \<comment> \<open>an environment whose \<open>assign_field\<close> is the one modelled from the spec\<close>
  "spec_env convert lookup fn =
     \<lparr>lookup_action = lookup, assign_field = assign_field_spec convert, action_function = fn\<rparr>"

section \<open>A small document to run\<close>

definition here :: SourceLocation where
  "here = SourceLocation ''doc.md'' 1 1"

definition convert_text :: "field_type \<Rightarrow> string \<Rightarrow> cvalue option" where
  \<comment> \<open>a conversion that knows strings and the two booleans\<close>
  "convert_text ty s =
     (case ty of
        TStr \<Rightarrow> Some (VStr s)
      | TBool \<Rightarrow> (if s = ''true'' then Some (VBool True)
                  else if s = ''false'' then Some (VBool False) else None)
      | _ \<Rightarrow> None)"

definition root0 :: RootConfiguration where
  "root0 = [''model'' \<mapsto> \<lparr>declared_type = TStr, field_value = VStr ''none'',
                            explicitly_assigned = False\<rparr>]"

definition state0 :: "(RootConfiguration, unit) ExecutionState" where
  "state0 = \<lparr>log = [], input_file_path = ''doc.md'', user_prapti_config_dir = None,
     prapticonfig_dirs = [], root_config = root0, message_sequence = [], responses = [],
     private_core_state = ()\<rparr>"

definition slots0 :: result_slots where
  "slots0 = (\<lambda>r. RNone)"

definition act :: "string \<Rightarrow> bool \<Rightarrow> unit Action" where
  "act qn excl = \<lparr>qualified_name = qn, exclamation_only = excl, plugin_config = ()\<rparr>"

definition lookup0 :: "unit \<Rightarrow> string \<Rightarrow> unit Action list" where
  \<comment> \<open>a registry with a plain action, a raising one, an exclamation-only one and a name
      that two plugins registered\<close>
  "lookup0 core n =
     (if n = ''echo'' then [act ''test.echo'' False]
      else if n = ''boom'' then [act ''test.boom'' False]
      else if n = ''send'' then [act ''test.send'' True]
      else if n = ''dup'' then [act ''one.dup'' False, act ''two.dup'' False]
      else [])"

definition fn0 :: "unit Action \<Rightarrow> string \<Rightarrow> string \<Rightarrow> (RootConfiguration, unit) ActionContext
    \<Rightarrow> (RootConfiguration, unit) ExecutionState
    \<Rightarrow> error + (result \<times> (RootConfiguration, unit) ExecutionState)" where
  \<comment> \<open>every action returns its arguments, but \<open>test.boom\<close>, which raises\<close>
  "fn0 a n args ctx st =
     (if qualified_name a = ''test.boom'' then Inl (Raised ''boom'') else Inr (RStr args, st))"

definition fn1 :: "unit Action \<Rightarrow> string \<Rightarrow> string \<Rightarrow> (RootConfiguration, unit) ActionContext
    \<Rightarrow> (RootConfiguration, unit) ExecutionState
    \<Rightarrow> error + (result \<times> (RootConfiguration, unit) ExecutionState)" where
  \<comment> \<open>every action returns its arguments\<close>
  "fn1 a n args ctx st = Inr (RStr args, st)"

definition env0 :: "(RootConfiguration, unit, unit, unit) Env" where
  "env0 = spec_env convert_text lookup0 fn0"

definition env1 :: "(RootConfiguration, unit, unit, unit) Env" where
  "env1 = spec_env convert_text lookup0 fn1"

definition cmd :: "nat \<Rightarrow> string \<Rightarrow> item" where
  "cmd r t = Cmd \<lparr>cmd_ref = r, cmd_text = t, cmd_is_enabled = True, cmd_source_loc = here\<rparr>"

definition msg :: "nat \<Rightarrow> item list \<Rightarrow> Message" where
  "msg r items = \<lparr>msg_ref = r, role = ''user'', name = None, content = items,
     is_enabled = True, is_private = False, source_loc = here\<rparr>"

section \<open>Properties of the matcher\<close>

lemma space_not_name: "is_space x \<Longrightarrow> \<not> is_name_char x"
  by (auto simp: is_space_def is_name_char_def is_word_def Let_def backslash_def)

lemma punct_facts:
  "\<not> is_space (CHR ''='')" "\<not> is_name_char (CHR ''='')"
  "\<not> is_space (CHR ''!'')" "\<not> is_name_char (CHR ''!'')"
  by (simp_all add: is_space_def is_name_char_def is_word_def Let_def backslash_def)

lemma space_lf: "is_space (CHR 0x0A)"
  by (simp add: is_space_def)

lemma star_Nil: "rmatch (Star p) [] c k = k [] c"
  by simp

lemma star_Cons: "rmatch (Star p) (x # xs) c k =
    (if p x then (case rmatch (Star p) xs c k of Some m \<Rightarrow> Some m | None \<Rightarrow> k (x # xs) c)
     else k (x # xs) c)"
  by simp

declare rmatch.simps(6) [simp del]
declare star_Nil [simp] star_Cons [simp]

text \<open>
  A greedy repetition followed by something that cannot start with a character of the
  class never gives a character back; neither does one followed by something that
  accepts what the longest repetition leaves.
\<close>

lemma star_reject:
  "(\<And>x xs. p x \<Longrightarrow> k (x # xs) c = None) \<Longrightarrow> rmatch (Star p) s c k = k (dropWhile p s) c"
  by (induction s) (auto split: option.splits)

lemma star_accept:
  "k (dropWhile p s) c \<noteq> None \<Longrightarrow> rmatch (Star p) s c k = k (dropWhile p s) c"
  by (induction s) (auto split: option.splits)

lemma take_dropWhile_len: "take (length s - length (dropWhile p s)) s = takeWhile p s"
proof -
  have "length s - length (dropWhile p s) = length (takeWhile p s)"
    by (metis add_diff_cancel_right' length_append takeWhile_dropWhile_id)
  then show ?thesis
    by (metis append_eq_conv_conj takeWhile_dropWhile_id)
qed

lemma grp4: "rmatch (Grp 4 (Star is_dot)) s c accept = rest_of_line s c"
  by (simp add: star_accept take_dropWhile_len rest_of_line_def accept_def)

lemma grp3: "rmatch (Grp 3 (Str ''='')) s c rest_of_line =
    (case s of [] \<Rightarrow> None
     | x # xs \<Rightarrow> if x = CHR ''='' then rest_of_line xs (c(3 \<mapsto> ''='')) else None)"
  by (cases s) auto

lemma branch_eq: "rmatch (Seq (Star is_space) (Grp 3 (Str ''=''))) s c rest_of_line =
    (case dropWhile is_space s of [] \<Rightarrow> None
     | x # xs \<Rightarrow> if x = CHR ''='' then rest_of_line xs (c(3 \<mapsto> ''='')) else None)"
proof -
  have "rmatch (Star is_space) s c (\<lambda>s' c'. rmatch (Grp 3 (Str ''='')) s' c' rest_of_line) =
        rmatch (Grp 3 (Str ''='')) (dropWhile is_space s) c rest_of_line"
    by (rule star_reject) (auto simp: grp3 punct_facts)
  then show ?thesis
    by (simp only: rmatch.simps(3) grp3)
qed

lemma branch_space: "rmatch (Plus is_space) s c rest_of_line =
    (case s of [] \<Rightarrow> None
     | x # xs \<Rightarrow> if is_space x then rest_of_line (dropWhile is_space xs) c else None)"
  by (cases s) (simp_all add: Plus_def star_accept rest_of_line_def)

lemma branch_eol:
  "rmatch Eol s c rest_of_line = (if s = [] \<or> s = [newline] then rest_of_line s c else None)"
  by simp

lemma tail_match: "rmatch tail_regex s c accept = tail_parse s c"
proof -
  have "rmatch tail_regex s c accept =
    (case rmatch (Seq (Star is_space) (Grp 3 (Str ''=''))) s c rest_of_line of
       Some m \<Rightarrow> Some m
     | None \<Rightarrow> (case rmatch (Plus is_space) s c rest_of_line of
                  Some m \<Rightarrow> Some m
                | None \<Rightarrow> rmatch Eol s c rest_of_line))"
    unfolding tail_regex_def by (simp only: rmatch.simps(3,4) grp4)
  also have "\<dots> = tail_parse s c"
    unfolding branch_eq branch_space branch_eol tail_parse_def Let_def rest_of_line_def
    by (cases s; cases "dropWhile is_space s")
       (auto simp: punct_facts space_lf newline_def split: if_splits)
  finally show ?thesis .
qed

lemma tail_reject: "is_name_char x \<Longrightarrow> tail_parse (x # xs) c = None"
  using space_not_name[of x] by (auto simp: tail_parse_def Let_def punct_facts)

lemma name_match: "rmatch name_regex s c accept =
    (if takeWhile is_name_char s = [] then None
     else tail_parse (dropWhile is_name_char s) (c(2 \<mapsto> takeWhile is_name_char s)))"
proof (cases s)
  case Nil
  then show ?thesis by (simp add: name_regex_def Plus_def)
next
  case (Cons x xs)
  show ?thesis
  proof (cases "is_name_char x")
    case False
    with Cons show ?thesis by (simp add: name_regex_def Plus_def)
  next
    case True
    let ?k = "\<lambda>s' c'. tail_parse s' (c'(2 \<mapsto> take (length s - length s') s))"
    have "rmatch name_regex s c accept = rmatch (Star is_name_char) xs c ?k"
      using Cons True by (simp add: name_regex_def Plus_def tail_match)
    also have "\<dots> = ?k (dropWhile is_name_char xs) c"
      by (rule star_reject) (simp add: tail_reject)
    also have "\<dots> = tail_parse (dropWhile is_name_char s) (c(2 \<mapsto> takeWhile is_name_char s))"
      using Cons True take_dropWhile_len[of s is_name_char] by simp
    finally show ?thesis using Cons True by simp
  qed
qed

lemma name_reject: "\<not> is_name_char x \<Longrightarrow> rmatch name_regex (x # xs) c accept = None"
  by (simp add: name_match)

lemma rest_match: "rmatch rest_regex s c accept =
    (let t2 = dropWhile is_space s in
     if takeWhile is_name_char t2 = [] then None
     else tail_parse (dropWhile is_name_char t2) (c(2 \<mapsto> takeWhile is_name_char t2)))"
proof -
  have "rmatch (Star is_space) s c (\<lambda>s' c'. rmatch name_regex s' c' accept) =
        rmatch name_regex (dropWhile is_space s) c accept"
    by (rule star_reject) (simp add: name_reject space_not_name)
  then show ?thesis
    unfolding rest_regex_def rmatch.simps(3) by (simp only: name_match Let_def)
qed

lemma command_regex_unfold: "command_regex = Seq (Opt (Grp 1 (Str ''!''))) rest_regex"
  by (simp add: command_regex_def rest_regex_def name_regex_def tail_regex_def)

lemma opt_bang: "rmatch (Opt (Grp 1 (Str ''!''))) t c k =
    (case t of [] \<Rightarrow> k t c
     | x # xs \<Rightarrow>
         if x = CHR ''!'' then (case k xs (c(1 \<mapsto> ''!'')) of Some m \<Rightarrow> Some m | None \<Rightarrow> k t c)
         else k t c)"
  by (cases t) auto

lemma re_match_accept: "re_match r t = rmatch r t Map.empty accept"
  by (simp add: re_match_def accept_def[abs_def])

text \<open>
  Python's match of \<open>command_regex\<close> is the deterministic left-to-right reading: the
  backtracking never finds a second way.
\<close>

lemma command_regex_match: "re_match command_regex t = parse_command t"
proof -
  have "re_match command_regex t =
      rmatch (Opt (Grp 1 (Str ''!''))) t Map.empty (\<lambda>s' c'. rmatch rest_regex s' c' accept)"
    unfolding re_match_accept command_regex_unfold by (simp only: rmatch.simps(3))
  also have "\<dots> = parse_command t"
    unfolding opt_bang
    by (cases t)
       (auto simp: rest_match parse_command_def Let_def punct_facts split: option.splits)
  finally show ?thesis .
qed

section \<open>From the match to the four parts\<close>

lemma strip_Nil: "strip [] = []"
  by (simp add: strip_def)

lemma match_parts_tail:
  assumes "c 3 = None" "c 4 = None"
  shows "map_option match_parts (tail_parse s c) = tail_parts (truthy (c 1)) (group_text (c 2)) s"
proof -
  have a: "match_parts (c(3 \<mapsto> ''='', 4 \<mapsto> g)) = (truthy (c 1), group_text (c 2), True, strip g)" for g
    by (simp add: match_parts_def truthy_def group_text_def strip_Nil)
  have b: "match_parts (c(4 \<mapsto> g)) = (truthy (c 1), group_text (c 2), False, strip g)" for g
    using assms by (simp add: match_parts_def truthy_def group_text_def strip_Nil)
  show ?thesis
    unfolding tail_parse_def tail_parts_def Let_def
    by (simp only: a b option.map if_distrib[of "map_option match_parts"] cong: if_cong)
qed

lemma match_parts_parse: "map_option match_parts (parse_command t) = command_parts t"
proof -
  define b where "b = (t \<noteq> [] \<and> hd t = CHR ''!'')"
  define t2 where "t2 = dropWhile is_space (if b then tl t else t)"
  define c :: captures where "c = (if b then [1 \<mapsto> ''!''] else Map.empty)(2 \<mapsto> takeWhile is_name_char t2)"
  have c: "c 3 = None" "c 4 = None" "truthy (c 1) = b" "group_text (c 2) = takeWhile is_name_char t2"
    by (simp_all add: c_def truthy_def group_text_def)
  have p: "parse_command t = (if takeWhile is_name_char t2 = [] then None
      else tail_parse (dropWhile is_name_char t2) c)"
    by (simp only: parse_command_def Let_def b_def t2_def c_def)
  have q: "command_parts t = (if takeWhile is_name_char t2 = [] then None
      else tail_parts b (takeWhile is_name_char t2) (dropWhile is_name_char t2))"
    by (simp only: command_parts_def Let_def b_def t2_def)
  show ?thesis
    unfolding p q using match_parts_tail[OF c(1,2)] c(3,4) by simp
qed

lemma command_parts_match: "map_option match_parts (re_match command_regex t) = command_parts t"
  by (simp only: command_regex_match match_parts_parse)

lemma interpret_command_parts:
  "interpret_command env t fm sl st = dispatch env t fm sl st (command_parts t)"
proof (cases "re_match command_regex t")
  case None
  then have "command_parts t = None"
    using command_parts_match[of t] by simp
  with None show ?thesis
    by (simp add: interpret_command_def dispatch_def)
next
  case (Some m)
  then have "command_parts t = Some (match_parts m)"
    using command_parts_match[of t] by simp
  then have d: "dispatch env t fm sl st (command_parts t) =
      dispatch env t fm sl st (Some (truthy (m 1), group_text (m 2), truthy (m 3),
        if truthy (m 4) then strip (group_text (m 4)) else []))"
    by (simp only: match_parts_def)
  show ?thesis
    unfolding d by (simp add: interpret_command_def Some dispatch_def Let_def)
qed

lemma read_command_parts: "read_command t = command_parts t"
  by (simp only: read_command_def command_parts_match)

lemma interpret_command_read:
  "interpret_command env t fm sl st = dispatch env t fm sl st (read_command t)"
  by (simp only: interpret_command_parts read_command_parts)

section \<open>The loops as a run over the visited commands\<close>

lemma run_visits_append:
  "run_visits env (vs @ vs') w =
     (case run_visits env vs w of Inl e \<Rightarrow> Inl e | Inr w' \<Rightarrow> run_visits env vs' w')"
  by (induction vs arbitrary: w) (auto split: sum.splits)

lemma interpret_items_visits:
  "interpret_items env fm items w = run_visits env (map (Pair fm) (enabled_commands items)) w"
proof (induction items arbitrary: w)
  case Nil
  then show ?case by simp
next
  case (Cons i items)
  show ?case
  proof (cases i)
    case (Text s)
    with Cons show ?thesis by simp
  next
    case (Cmd c)
    obtain st slots where w: "w = (st, slots)" by (cases w)
    show ?thesis
    proof (cases "cmd_is_enabled c")
      case False
      with Cmd Cons w show ?thesis by simp
    next
      case True
      show ?thesis
      proof (cases "interpret_command env (cmd_text c) fm (cmd_source_loc c) st")
        case (Inl e)
        with Cmd True w show ?thesis by (simp add: visit_def)
      next
        case (Inr rs)
        obtain r st' where rs: "rs = (r, st')" by (cases rs)
        with Inr Cmd True w Cons[of "(st', slots(cmd_ref c := r))"] show ?thesis
          by (simp add: visit_def)
      qed
    qed
  qed
qed

lemma interpret_messages_visits:
  "interpret_messages env fo ms w = run_visits env (concat (map (message_visits fo) ms)) w"
proof (induction ms arbitrary: w)
  case Nil
  then show ?case by simp
next
  case (Cons m ms)
  show ?case
  proof (cases "is_enabled m")
    case False
    with Cons show ?thesis by (simp add: message_visits_def)
  next
    case True
    then show ?thesis
      using Cons
      by (simp add: message_visits_def interpret_items_visits run_visits_append
          split: sum.splits)
  qed
qed

lemma interpret_commands_visits:
  "ms \<noteq> [] \<or> \<not> fin \<Longrightarrow> interpret_commands env ms w fin = run_visits env (visits fin ms) w"
  by (cases fin) (simp_all add: interpret_commands_def visits_def interpret_messages_visits)

section \<open>Running an action: the three outcomes of the lookup\<close>

lemma occurs_in_refl: "occurs_in u u"
  unfolding occurs_in_def by (rule exI[of _ "[]"], rule exI[of _ "[]"]) simp

lemma occurs_in_prepend: "occurs_in u s \<Longrightarrow> occurs_in u (p @ s)"
  unfolding occurs_in_def by (metis append.assoc)

lemma occurs_in_append: "occurs_in u s \<Longrightarrow> occurs_in u (s @ p)"
  unfolding occurs_in_def by (metis append.assoc)

lemma occurs_in_join: "x \<in> set xs \<Longrightarrow> occurs_in x (join sep xs)"
proof (induction sep xs rule: join.induct)
  case (1 sep)
  then show ?case by simp
next
  case (2 sep x')
  then show ?case by (simp add: occurs_in_refl)
next
  case (3 sep x' y ys)
  show ?case
  proof (cases "x = x'")
    case True
    then show ?thesis by (simp add: occurs_in_append occurs_in_refl)
  next
    case False
    with 3 have "occurs_in x (join sep (y # ys))" by simp
    then show ?thesis by (simp add: occurs_in_prepend)
  qed
qed

lemma join_alternatives_names:
  assumes "alts \<noteq> []"
  shows "\<exists>s. join_alternatives alts = Inr s \<and> (\<forall>x \<in> set alts. occurs_in x s)"
proof -
  let ?s = "join '', '' (butlast alts) @ '' or '' @ last alts"
  have "occurs_in x ?s" if "x \<in> set alts" for x
  proof (cases "x = last alts")
    case True
    have "occurs_in (last alts) ?s"
      by (intro occurs_in_prepend occurs_in_refl)
    with True show ?thesis by (simp only:)
  next
    case False
    from assms have "set alts = insert (last alts) (set (butlast alts))"
      by (metis append_butlast_last_id list.simps(15) rotate1.simps(2) set_rotate1)
    with that False have "x \<in> set (butlast alts)" by simp
    then show ?thesis by (intro occurs_in_append occurs_in_join)
  qed
  with assms show ?thesis by (simp add: join_alternatives_def)
qed

lemma run_action_none:
  "lookup_action env (private_core_state st) n = [] \<Longrightarrow>
   run_action env b n args sl st =
     Inr (RNone, log_error st ''action-not-found''
       (''couldn't run action '' @ quoted n @ ''. action not found.'') sl)"
  by (simp add: run_action_def)

lemma run_action_one:
  "lookup_action env (private_core_state st) n = [a] \<Longrightarrow>
   run_action env b n args sl st =
     (if exclamation_only a \<and> \<not> b then
        Inr (RNone, log_error st ''excl-only-action-without-excl''
          (''didn't run action '' @ quoted n
             @ ''. action is !-only but written without a '' @ quoted ''!'') sl)
      else action_function env a n args
             \<lparr>ctx_root_config = root_config st, ctx_plugin_config = plugin_config a,
              ctx_source_loc = sl, ctx_log = log st\<rparr> st)"
  by (simp add: run_action_def)

lemma run_action_many:
  assumes "lookup_action env (private_core_state st) n = a1 # a2 # as"
  shows "\<exists>alts. run_action env b n args sl st =
       Inr (RNone, log_error st ''ambiguous-action-name''
         (''didn't run action '' @ quoted n
            @ ''. action name is ambiguous, did you mean: '' @ alts) sl)
     \<and> (\<forall>a \<in> set (a1 # a2 # as). occurs_in (qualified_name a) alts)"
proof -
  obtain s where s: "join_alternatives (map qualified_name (a1 # a2 # as)) = Inr s"
    and all: "\<forall>x \<in> set (map qualified_name (a1 # a2 # as)). occurs_in x s"
    using join_alternatives_names[of "map qualified_name (a1 # a2 # as)"] by auto
  have "run_action env b n args sl st =
       Inr (RNone, log_error st ''ambiguous-action-name''
         (''didn't run action '' @ quoted n
            @ ''. action name is ambiguous, did you mean: '' @ s) sl)"
    using assms s by (simp add: run_action_def)
  moreover have "\<forall>a \<in> set (a1 # a2 # as). occurs_in (qualified_name a) s"
    using all by simp
  ultimately show ?thesis by blast
qed

lemma dispatch_action:
  "dispatch env t fm sl st (Some (b, nm, False, args)) =
     (if \<not> b \<or> fm then run_action env b nm args sl st else Inr (RNone, st))"
  by (simp add: dispatch_def)

lemmas class_eval = is_space_def is_name_char_def is_word_def Let_def backslash_def

lemmas text_eval = command_parts_def tail_parts_def class_eval is_dot_def newline_def strip_def

section \<open>The configuration-root scan\<close>

lemma items_config_root_iff:
  "items_config_root items =
     (\<exists>c. Cmd c \<in> set items \<and> cmd_is_enabled c
          \<and> re_match config_root_regex (cmd_text c) \<noteq> None)"
proof (induction items)
  case Nil
  then show ?case by simp
next
  case (Cons i items)
  then show ?case by (cases i) auto
qed

lemma config_root_yes: "re_match config_root_regex ''prapti.config_root = true'' \<noteq> None"
  by (simp add: re_match_def config_root_regex_def is_space_def)

lemma config_root_no: "re_match config_root_regex ''config_root = false'' = None"
  by (simp add: re_match_def config_root_regex_def is_space_def)

section \<open>Commands that are not carried out\<close>

lemma strip_spaces:
  assumes "\<forall>c \<in> set s. is_space c"
  shows "strip s = []"
proof -
  from assms have d: "dropWhile is_space s = []" by simp
  show ?thesis unfolding strip_def d by simp
qed

lemma strip_spaces_line: "(\<forall>c \<in> set s. is_space c) \<Longrightarrow> strip (takeWhile is_dot s) = []"
  by (rule strip_spaces) (auto dest: set_takeWhileD)

lemma dispatch_none:
  "dispatch env t fm sl st None =
     Inr (RNone, log_error st ''unknown-command'' (''couldn't interpret command '' @ quoted t) sl)"
  by (simp add: dispatch_def)

lemma dispatch_empty_assignment:
  "\<not> b \<or> fm \<Longrightarrow> dispatch env t fm sl st (Some (b, nm, True, [])) =
     Inr (RNone, log_error st ''skiping-empty-assignment''
       (''skipping configuration assignment with no right-hand-side '' @ quoted t) sl)"
  by (simp add: dispatch_def)

lemma parts_no_name: "command_parts ''= 5'' = None"
  by (simp add: command_parts_def class_eval)

lemma parts_field_eq:
  "command_parts (''field ='' @ ws) = Some (False, ''field'', True, strip (takeWhile is_dot ws))"
  by (simp add: command_parts_def tail_parts_def class_eval)

section \<open>The exclamation gate\<close>

lemma enabled_commands_set:
  "c \<in> set (enabled_commands items) \<longleftrightarrow> Cmd c \<in> set items \<and> cmd_is_enabled c"
proof (induction items)
  case Nil
  then show ?case by simp
next
  case (Cons i items)
  then show ?case by (cases i) auto
qed

lemma visits_set:
  "(flag, c) \<in> set (visits fin msgs) \<longleftrightarrow>
     (\<exists>m \<in> set msgs. is_enabled m \<and> Cmd c \<in> set (content m) \<and> cmd_is_enabled c
        \<and> flag = (fin \<and> msg_ref m = msg_ref (last msgs)))"
proof -
  have f: "is_same m (if fin then Some (last msgs) else None) =
      (fin \<and> msg_ref m = msg_ref (last msgs))" for m
    by (simp add: is_same_def)
  have "(flag, c) \<in> set (visits fin msgs) \<longleftrightarrow>
      (\<exists>m \<in> set msgs. (flag, c) \<in> set (message_visits (if fin then Some (last msgs) else None) m))"
    by (simp add: visits_def)
  also have "\<dots> \<longleftrightarrow> (\<exists>m \<in> set msgs. is_enabled m \<and> c \<in> set (enabled_commands (content m))
        \<and> flag = (fin \<and> msg_ref m = msg_ref (last msgs)))"
    unfolding message_visits_def f by (rule bex_cong[OF refl]) auto
  finally show ?thesis by (simp only: enabled_commands_set conj_assoc)
qed

lemma dispatch_open:
  "\<not> b \<or> fm \<Longrightarrow> dispatch env t fm sl st (Some (b, nm, eq, rhs)) =
     (if eq then
        (if rhs = [] then
           Inr (RNone, log_error st ''skiping-empty-assignment''
             (''skipping configuration assignment with no right-hand-side '' @ quoted t) sl)
         else
           (case assign_field env (root_config st) nm rhs sl (log st) of
              (cfg', log') \<Rightarrow> Inr (RNone, st\<lparr>log := log', root_config := cfg'\<rparr>)))
      else run_action env b nm rhs sl st)"
  by (simp add: dispatch_def)

lemma dispatch_closed:
  "dispatch env t False sl st (Some (True, nm, eq, rhs)) = Inr (RNone, st)"
  by (simp add: dispatch_def)

lemma read_command_bang:
  "read_command t = Some (b, nm, eq, rhs) \<Longrightarrow> b = (t \<noteq> [] \<and> hd t = CHR ''!'')"
  unfolding read_command_parts command_parts_def tail_parts_def Let_def
  by (auto split: if_splits)

lemma two_messages_visits:
  "visits True [msg 10 [cmd 11 ''!echo a''], msg 20 [cmd 21 ''!echo b'']] =
     [(False, \<lparr>cmd_ref = 11, cmd_text = ''!echo a'', cmd_is_enabled = True, cmd_source_loc = here\<rparr>),
      (True, \<lparr>cmd_ref = 21, cmd_text = ''!echo b'', cmd_is_enabled = True, cmd_source_loc = here\<rparr>)]"
  by (simp add: visits_def message_visits_def is_same_def msg_def cmd_def)

lemma echo_runs:
  "run_action env1 b ''echo'' args here state0 = Inr (RStr args, state0)"
  by (simp add: run_action_def env1_def spec_env_def lookup0_def fn1_def act_def)

lemma lone_bang: "command_parts ''!'' = None"
  by (simp add: command_parts_def class_eval)

section \<open>What the interpreter raises\<close>

lemma run_action_returns:
  assumes "no_raise env"
  shows "\<exists>r st'. run_action env b n args sl st = Inr (r, st')"
proof (cases "lookup_action env (private_core_state st) n")
  case Nil
  then show ?thesis by (simp add: run_action_none)
next
  case (Cons a1 rest)
  show ?thesis
  proof (cases rest)
    case Nil
    with Cons have one: "lookup_action env (private_core_state st) n = [a1]" by simp
    from assms obtain r st' where "action_function env a1 n args
        \<lparr>ctx_root_config = root_config st, ctx_plugin_config = plugin_config a1,
         ctx_source_loc = sl, ctx_log = log st\<rparr> st = Inr (r, st')"
      unfolding no_raise_def by blast
    then show ?thesis by (simp add: run_action_one[OF one])
  next
    case (Cons a2 as)
    with \<open>lookup_action env (private_core_state st) n = a1 # rest\<close>
    have "lookup_action env (private_core_state st) n = a1 # a2 # as" by simp
    from run_action_many[OF this, of b args sl] show ?thesis by blast
  qed
qed

lemma interpret_command_returns:
  assumes "no_raise env"
  shows "\<exists>r st'. interpret_command env t fm sl st = Inr (r, st')"
proof (cases "read_command t")
  case None
  then show ?thesis by (simp add: interpret_command_read dispatch_none)
next
  case (Some parts)
  obtain b nm eq rhs where p: "parts = (b, nm, eq, rhs)" by (cases parts)
  show ?thesis
  proof (cases "eq \<or> \<not> (\<not> b \<or> fm)")
    case True
    with Some p show ?thesis
      by (auto simp: interpret_command_read dispatch_def split: prod.splits)
  next
    case False
    with Some p have "interpret_command env t fm sl st = run_action env b nm rhs sl st"
      by (auto simp: interpret_command_read dispatch_def)
    with run_action_returns[OF assms] show ?thesis by simp
  qed
qed

lemma run_visits_returns:
  assumes "no_raise env"
  shows "\<exists>w'. run_visits env vs w = Inr w'"
proof (induction vs arbitrary: w)
  case Nil
  then show ?case by simp
next
  case (Cons v vs)
  from interpret_command_returns[OF assms]
  obtain r st' where "interpret_command env (cmd_text (snd v)) (fst v) (cmd_source_loc (snd v)) (fst w)
      = Inr (r, st')"
    by blast
  then have "visit env v w = Inr (st', (snd w)(cmd_ref (snd v) := r))"
    by (simp add: visit_def)
  with Cons[of "(st', (snd w)(cmd_ref (snd v) := r))"] show ?case by simp
qed

lemma no_raise_env1: "no_raise env1"
  by (simp add: no_raise_def env1_def spec_env_def fn1_def)

lemma boom_raises:
  "interpret_command env0 ''boom'' False here state0 = Inl (Raised ''boom'')"
proof -
  have "read_command ''boom'' = Some (False, ''boom'', False, [])"
    by (simp add: read_command_parts text_eval)
  then show ?thesis
    by (simp add: interpret_command_read dispatch_action run_action_def env0_def spec_env_def
        lookup0_def fn0_def act_def)
qed

lemma run_action_raises_iff:
  "run_action env b n args sl st = Inl e \<longleftrightarrow>
     (\<exists>a. lookup_action env (private_core_state st) n = [a] \<and> (\<not> exclamation_only a \<or> b)
        \<and> action_function env a n args
             \<lparr>ctx_root_config = root_config st, ctx_plugin_config = plugin_config a,
              ctx_source_loc = sl, ctx_log = log st\<rparr> st = Inl e)"
proof (cases "lookup_action env (private_core_state st) n")
  case Nil
  then show ?thesis by (simp add: run_action_none)
next
  case (Cons a1 rest)
  show ?thesis
  proof (cases rest)
    case Nil
    with Cons have one: "lookup_action env (private_core_state st) n = [a1]" by simp
    show ?thesis unfolding run_action_one[OF one] using one by auto
  next
    case (Cons a2 as)
    with \<open>lookup_action env (private_core_state st) n = a1 # rest\<close>
    have many: "lookup_action env (private_core_state st) n = a1 # a2 # as" by simp
    from run_action_many[OF many, of b args sl]
    obtain alts where "run_action env b n args sl st =
       Inr (RNone, log_error st ''ambiguous-action-name''
         (''didn't run action '' @ quoted n
            @ ''. action name is ambiguous, did you mean: '' @ alts) sl)"
      by blast
    with many show ?thesis by simp
  qed
qed

lemma interpret_command_raises_iff:
  "interpret_command env t fm sl st = Inl e \<longleftrightarrow>
     (\<exists>b nm args a. read_command t = Some (b, nm, False, args) \<and> (\<not> b \<or> fm)
        \<and> lookup_action env (private_core_state st) nm = [a] \<and> (\<not> exclamation_only a \<or> b)
        \<and> action_function env a nm args
             \<lparr>ctx_root_config = root_config st, ctx_plugin_config = plugin_config a,
              ctx_source_loc = sl, ctx_log = log st\<rparr> st = Inl e)"
proof (cases "read_command t")
  case None
  then show ?thesis by (simp add: interpret_command_read dispatch_none)
next
  case (Some parts)
  obtain b nm eq rhs where p: "parts = (b, nm, eq, rhs)" by (cases parts)
  show ?thesis
  proof (cases "eq \<or> \<not> (\<not> b \<or> fm)")
    case True
    with Some p show ?thesis
      by (auto simp: interpret_command_read dispatch_def split: prod.splits)
  next
    case False
    with Some p have "interpret_command env t fm sl st = run_action env b nm rhs sl st"
      by (auto simp: interpret_command_read dispatch_def)
    with Some p False show ?thesis
      by (simp add: run_action_raises_iff)
  qed
qed

lemma visit_raises_iff:
  "visit env v w = Inl e \<longleftrightarrow>
     interpret_command env (cmd_text (snd v)) (fst v) (cmd_source_loc (snd v)) (fst w) = Inl e"
  by (auto simp: visit_def split: sum.splits)

lemma run_visits_raises_iff:
  "run_visits env vs w = Inl e \<longleftrightarrow>
     (\<exists>pre v post w1. vs = pre @ v # post \<and> run_visits env pre w = Inr w1
        \<and> visit env v w1 = Inl e)"
proof (induction vs arbitrary: w)
  case Nil
  then show ?case by simp
next
  case (Cons x xs)
  show ?case
  proof (cases "visit env x w")
    case (Inl e')
    show ?thesis
    proof
      assume "run_visits env (x # xs) w = Inl e"
      with Inl have "visit env x w = Inl e" by simp
      then have "x # xs = [] @ x # xs \<and> run_visits env [] w = Inr w \<and> visit env x w = Inl e"
        by simp
      then show "\<exists>pre v post w1. x # xs = pre @ v # post \<and> run_visits env pre w = Inr w1
          \<and> visit env v w1 = Inl e"
        by blast
    next
      assume "\<exists>pre v post w1. x # xs = pre @ v # post \<and> run_visits env pre w = Inr w1
          \<and> visit env v w1 = Inl e"
      then obtain pre v post w1 where s: "x # xs = pre @ v # post"
        and r: "run_visits env pre w = Inr w1" and v: "visit env v w1 = Inl e"
        by blast
      show "run_visits env (x # xs) w = Inl e"
      proof (cases pre)
        case Nil
        with s r v show ?thesis by simp
      next
        case (Cons p ps)
        with s have "p = x" by simp
        with Cons r Inl show ?thesis by simp
      qed
    qed
  next
    case (Inr w')
    have "run_visits env (x # xs) w = Inl e \<longleftrightarrow> run_visits env xs w' = Inl e"
      using Inr by simp
    also have "\<dots> \<longleftrightarrow> (\<exists>pre v post w1. xs = pre @ v # post \<and> run_visits env pre w' = Inr w1
        \<and> visit env v w1 = Inl e)"
      by (rule Cons.IH)
    also have "\<dots> \<longleftrightarrow> (\<exists>pre v post w1. x # xs = pre @ v # post \<and> run_visits env pre w = Inr w1
        \<and> visit env v w1 = Inl e)"
    proof
      assume "\<exists>pre v post w1. xs = pre @ v # post \<and> run_visits env pre w' = Inr w1
        \<and> visit env v w1 = Inl e"
      then obtain pre v post w1 where "xs = pre @ v # post" "run_visits env pre w' = Inr w1"
        "visit env v w1 = Inl e"
        by blast
      with Inr have "x # xs = (x # pre) @ v # post \<and> run_visits env (x # pre) w = Inr w1
        \<and> visit env v w1 = Inl e"
        by simp
      then show "\<exists>pre v post w1. x # xs = pre @ v # post \<and> run_visits env pre w = Inr w1
        \<and> visit env v w1 = Inl e"
        by blast
    next
      assume "\<exists>pre v post w1. x # xs = pre @ v # post \<and> run_visits env pre w = Inr w1
        \<and> visit env v w1 = Inl e"
      then obtain pre v post w1 where s: "x # xs = pre @ v # post"
        and r: "run_visits env pre w = Inr w1" and v: "visit env v w1 = Inl e"
        by blast
      show "\<exists>pre v post w1. xs = pre @ v # post \<and> run_visits env pre w' = Inr w1
        \<and> visit env v w1 = Inl e"
      proof (cases pre)
        case Nil
        with s r v Inr show ?thesis by simp
      next
        case (Cons p ps)
        with s have "p = x" "xs = ps @ v # post" by simp_all
        with Cons r Inr v have "xs = ps @ v # post \<and> run_visits env ps w' = Inr w1
            \<and> visit env v w1 = Inl e"
          by simp
        then show ?thesis by blast
      qed
    qed
    finally show ?thesis .
  qed
qed

lemma interpret_commands_raises_iff:
  "interpret_commands env msgs w fin = Inl e \<longleftrightarrow>
     (msgs = [] \<and> fin \<and> e = IndexError)
     \<or> (\<exists>pre v post w1. visits fin msgs = pre @ v # post \<and> run_visits env pre w = Inr w1
          \<and> interpret_command env (cmd_text (snd v)) (fst v) (cmd_source_loc (snd v)) (fst w1)
              = Inl e)"
proof (cases "msgs = [] \<and> fin")
  case True
  then have "interpret_commands env msgs w fin = Inl IndexError" "visits fin msgs = []"
    by (simp_all add: interpret_commands_def visits_def)
  with True show ?thesis by auto
next
  case False
  then have "interpret_commands env msgs w fin = run_visits env (visits fin msgs) w"
    using interpret_commands_visits[of msgs fin env w] by blast
  with False show ?thesis
    by (simp only: run_visits_raises_iff visit_raises_iff) blast
qed

section \<open>Assignments\<close>

lemma takeWhile_block:
  assumes "\<forall>x \<in> set xs. P x" and "ys = [] \<or> \<not> P (hd ys)"
  shows "takeWhile P (xs @ ys) = xs" and "dropWhile P (xs @ ys) = ys"
proof -
  from assms(2) have t: "takeWhile P ys = []" and d: "dropWhile P ys = ys"
    by (cases ys; simp)+
  from assms(1) show "takeWhile P (xs @ ys) = xs"
    by (simp add: takeWhile_append2 t)
  from assms(1) show "dropWhile P (xs @ ys) = ys"
    by (simp add: dropWhile_append2 d)
qed

lemma assignment_parts:
  assumes nm: "nm \<noteq> []" "\<forall>c \<in> set nm. is_name_char c"
    and ws: "\<forall>c \<in> set ws0. is_space c" "\<forall>c \<in> set ws1. is_space c"
  shows "command_parts (ws0 @ nm @ ws1 @ ''='' @ val) =
           Some (False, nm, True, strip (takeWhile is_dot val))"
proof -
  let ?t = "ws0 @ nm @ ws1 @ ''='' @ val"
  from nm obtain n ns where n: "nm = n # ns" by (cases nm) auto
  with nm have nn: "is_name_char n" by simp
  then have nsp: "\<not> is_space n" using space_not_name by blast
  have nb: "n \<noteq> CHR ''!''" using nn punct_facts(4) by blast
  have b: "\<not> (?t \<noteq> [] \<and> hd ?t = CHR ''!'')"
  proof (cases ws0)
    case Nil
    with n nb show ?thesis by simp
  next
    case (Cons w ws)
    with ws(1) have "is_space w" by simp
    with punct_facts(3) have "w \<noteq> CHR ''!''" by blast
    with Cons show ?thesis by simp
  qed
  have t2: "dropWhile is_space ?t = nm @ ws1 @ ''='' @ val"
    by (rule takeWhile_block(2)) (use ws(1) n nsp in simp_all)
  have h: "ws1 @ ''='' @ val = [] \<or> \<not> is_name_char (hd (ws1 @ ''='' @ val))"
  proof (cases ws1)
    case Nil
    then show ?thesis using punct_facts(2) by simp
  next
    case (Cons w ws)
    with ws(2) have "is_space w" by simp
    with Cons show ?thesis using space_not_name by simp
  qed
  have tn: "takeWhile is_name_char (nm @ ws1 @ ''='' @ val) = nm"
    and dn: "dropWhile is_name_char (nm @ ws1 @ ''='' @ val) = ws1 @ ''='' @ val"
    using takeWhile_block[OF nm(2) h] by simp_all
  have t4: "dropWhile is_space (ws1 @ ''='' @ val) = ''='' @ val"
    by (rule takeWhile_block(2)) (use ws(2) punct_facts(1) in simp_all)
  have tp: "tail_parts False nm (ws1 @ ''='' @ val) =
       Some (False, nm, True, strip (takeWhile is_dot val))"
    unfolding tail_parts_def t4 by simp
  show ?thesis
    unfolding command_parts_def Let_def using b nm(1)
    by (simp only: if_False t2 tn dn tp)
qed

lemma dispatch_assignment:
  "\<not> b \<or> fm \<Longrightarrow> rhs \<noteq> [] \<Longrightarrow>
   dispatch env t fm sl st (Some (b, nm, True, rhs)) =
     (case assign_field env (root_config st) nm rhs sl (log st) of
        (cfg', log') \<Rightarrow> Inr (RNone, st\<lparr>log := log', root_config := cfg'\<rparr>))"
  by (simp add: dispatch_def)

lemma assign_field_spec_ok:
  "root nm = Some f \<Longrightarrow> convert (declared_type f) rhs = Some v \<Longrightarrow>
   assign_field_spec convert root nm rhs sl lg =
     (root(nm \<mapsto> f\<lparr>field_value := v, explicitly_assigned := True\<rparr>), lg)"
  by (simp add: assign_field_spec_def)

section \<open>Late-bound variables\<close>

lemma map_of_resolved:
  "map_of (map (\<lambda>(n, v). (n, g n v)) xs) k = map_option (g k) (map_of xs k)"
  by (induction xs) auto

lemma get_field_resolved:
  "get_field (resolve_var_refs config root) fld =
     map_option (effective_value root (var_refs config) fld) (get_field config fld)"
  by (simp add: get_field_def resolve_var_refs_def map_of_resolved)

section \<open>The claims\<close>

text \<open>
  C10. Calling \<open>interpret_commands\<close> with an empty message sequence and
  \<open>is_final_sequence\<close> true raises \<open>IndexError\<close> (the last element of an empty list is
  asked for) before any message is visited; the same call with \<open>is_final_sequence\<close>
  false returns normally and changes neither the state nor any result slot.
\<close>

theorem empty_sequence_final_raises:
  "interpret_commands env [] w True = Inl IndexError \<and> interpret_commands env [] w False = Inr w"
  by (simp add: interpret_commands_def)

theorem empty_sequence_final_raises_witness:
  "interpret_commands env0 [] (state0, slots0) True = Inl IndexError
   \<and> interpret_commands env0 [] (state0, slots0) False = Inr (state0, slots0)"
  using empty_sequence_final_raises [of env0 "(state0, slots0)"] by simp

text \<open>
  C4. For an action-invocation command that passes the exclamation gate: when the lookup
  of its name returns no action, an \<open>action-not-found\<close> diagnostic is reported and the
  result is \<open>None\<close>; when it returns more than one, an \<open>ambiguous-action-name\<close>
  diagnostic is reported whose message contains the qualified name of every match, the
  result is \<open>None\<close>, and the state is otherwise untouched whatever the functions of the
  actions are: none of them is called and no winner is picked.
\<close>

theorem action_lookup_misses:
  assumes "read_command t = Some (b, nm, False, args)" and "\<not> b \<or> fm"
  shows "(lookup_action env (private_core_state st) nm = [] \<longrightarrow>
            interpret_command env t fm sl st =
              Inr (RNone, log_error st ''action-not-found''
                (''couldn't run action '' @ quoted nm @ ''. action not found.'') sl))
       \<and> (\<forall>a1 a2 as. lookup_action env (private_core_state st) nm = a1 # a2 # as \<longrightarrow>
            (\<exists>alts. interpret_command env t fm sl st =
                 Inr (RNone, log_error st ''ambiguous-action-name''
                   (''didn't run action '' @ quoted nm
                      @ ''. action name is ambiguous, did you mean: '' @ alts) sl)
               \<and> (\<forall>a \<in> set (a1 # a2 # as). occurs_in (qualified_name a) alts)))"
proof -
  have run: "interpret_command env t fm sl st = run_action env b nm args sl st"
    using assms by (simp add: interpret_command_read dispatch_action)
  show ?thesis
    unfolding run using run_action_none[of env st nm b args sl] run_action_many[of env st nm _ _ _ b args sl]
    by blast
qed

theorem action_lookup_misses_witness:
  "interpret_command env1 ''nope'' False here state0 =
     Inr (RNone, log_error state0 ''action-not-found''
       (''couldn't run action '' @ quoted ''nope'' @ ''. action not found.'') here)
   \<and> (\<exists>alts. interpret_command env1 ''dup'' False here state0 =
         Inr (RNone, log_error state0 ''ambiguous-action-name''
           (''didn't run action '' @ quoted ''dup''
              @ ''. action name is ambiguous, did you mean: '' @ alts) here)
       \<and> occurs_in ''one.dup'' alts \<and> occurs_in ''two.dup'' alts)"
proof -
  have r1: "read_command ''nope'' = Some (False, ''nope'', False, [])"
    by (simp add: read_command_parts text_eval)
  have r2: "read_command ''dup'' = Some (False, ''dup'', False, [])"
    by (simp add: read_command_parts text_eval)
  have l1: "lookup_action env1 (private_core_state state0) ''nope'' = []"
    by (simp add: env1_def spec_env_def lookup0_def)
  have l2: "lookup_action env1 (private_core_state state0) ''dup''
      = act ''one.dup'' False # act ''two.dup'' False # []"
    by (simp add: env1_def spec_env_def lookup0_def)
  from action_lookup_misses[OF r1, of False env1 state0 here] l1
  have a: "interpret_command env1 ''nope'' False here state0 =
     Inr (RNone, log_error state0 ''action-not-found''
       (''couldn't run action '' @ quoted ''nope'' @ ''. action not found.'') here)"
    by blast
  from action_lookup_misses[OF r2, of False env1 state0 here] l2
  obtain alts where "interpret_command env1 ''dup'' False here state0 =
         Inr (RNone, log_error state0 ''ambiguous-action-name''
           (''didn't run action '' @ quoted ''dup''
              @ ''. action name is ambiguous, did you mean: '' @ alts) here)"
     and "\<forall>a \<in> set (act ''one.dup'' False # act ''two.dup'' False # []). occurs_in (qualified_name a) alts"
    by blast
  then have "\<exists>alts. interpret_command env1 ''dup'' False here state0 =
         Inr (RNone, log_error state0 ''ambiguous-action-name''
           (''didn't run action '' @ quoted ''dup''
              @ ''. action name is ambiguous, did you mean: '' @ alts) here)
       \<and> occurs_in ''one.dup'' alts \<and> occurs_in ''two.dup'' alts"
    by (auto simp: act_def)
  with a show ?thesis by blast
qed

text \<open>
  C5. An action marked exclamation-only, dispatched from a command written without a
  leading \<open>!\<close>: an error diagnostic is reported, the function of the action is not
  called (the state only gains the log entry) and the result of the command is \<open>None\<close>.
\<close>

theorem exclamation_only_refused:
  assumes "read_command t = Some (False, nm, False, args)"
    and "lookup_action env (private_core_state st) nm = [a]"
    and "exclamation_only a"
  shows "interpret_command env t fm sl st =
     Inr (RNone, log_error st ''excl-only-action-without-excl''
       (''didn't run action '' @ quoted nm
          @ ''. action is !-only but written without a '' @ quoted ''!'') sl)"
  using assms by (simp add: interpret_command_read dispatch_action run_action_one)

theorem exclamation_only_refused_witness:
  "interpret_command env1 ''send now'' True here state0 =
     Inr (RNone, log_error state0 ''excl-only-action-without-excl''
       (''didn't run action '' @ quoted ''send''
          @ ''. action is !-only but written without a '' @ quoted ''!'') here)"
proof -
  have r: "read_command ''send now'' = Some (False, ''send'', False, ''now'')"
    by (simp add: read_command_parts text_eval)
  have l: "lookup_action env1 (private_core_state state0) ''send'' = [act ''test.send'' True]"
    by (simp add: env1_def spec_env_def lookup0_def)
  have e: "exclamation_only (act ''test.send'' True)"
    by (simp add: act_def)
  show ?thesis
    by (rule exclamation_only_refused[OF r l e])
qed



text \<open>
  C9. \<open>is_config_root\<close> returns true exactly when some enabled message contains an
  enabled command whose text \<open>config_root_regex\<close> matches, the pattern
  \<open>(prapti.)?config_root = true\<close> with optional white space. The scan reads the messages
  and nothing else: it takes no execution state, so it cannot change one, report a
  diagnostic, assign a field or run an action.
\<close>

theorem is_config_root_scan:
  "is_config_root msgs =
     (\<exists>m \<in> set msgs. is_enabled m
        \<and> (\<exists>c. Cmd c \<in> set (content m) \<and> cmd_is_enabled c
               \<and> re_match config_root_regex (cmd_text c) \<noteq> None))"
  by (induction msgs) (auto simp: items_config_root_iff)

theorem is_config_root_scan_witness:
  "is_config_root [msg 1 [Text ''hello'', cmd 1 ''model = x''],
                   msg 2 [cmd 2 ''prapti.config_root = true'']]
   \<and> \<not> is_config_root [msg 1 [cmd 1 ''config_root = false'']]"
proof -
  have a: "is_config_root [msg 1 [Text ''hello'', cmd 1 ''model = x''],
                   msg 2 [cmd 2 ''prapti.config_root = true'']]"
    unfolding is_config_root_scan [of "[msg 1 [Text ''hello'', cmd 1 ''model = x''],
                   msg 2 [cmd 2 ''prapti.config_root = true'']]"]
    using config_root_yes by (simp add: msg_def cmd_def)
  have b: "\<not> is_config_root [msg 1 [cmd 1 ''config_root = false'']]"
    using config_root_no by (simp add: msg_def cmd_def)
  from a b show ?thesis by simp
qed

text \<open>
  C6. The command text \<open>= 5\<close>, an assignment without a field name, does not match the
  command pattern and is reported as \<open>unknown-command\<close>. The command text \<open>field =\<close>,
  followed by nothing or by white space only, does match: it is reported under a
  different code, \<open>skiping-empty-assignment\<close>, nothing is raised, \<open>assign_field\<close> is not
  called and the root configuration stays as it was.
\<close>

theorem malformed_assignments:
  "interpret_command env ''= 5'' fm sl st =
     Inr (RNone, log_error st ''unknown-command''
       (''couldn't interpret command '' @ quoted ''= 5'') sl)
   \<and> (\<forall>ws. (\<forall>c \<in> set ws. is_space c) \<longrightarrow>
        interpret_command env (''field ='' @ ws) fm sl st =
          Inr (RNone, log_error st ''skiping-empty-assignment''
            (''skipping configuration assignment with no right-hand-side ''
               @ quoted (''field ='' @ ws)) sl))
   \<and> root_config (log_error st k txt sl) = root_config st"
proof -
  have a: "interpret_command env ''= 5'' fm sl st =
     Inr (RNone, log_error st ''unknown-command''
       (''couldn't interpret command '' @ quoted ''= 5'') sl)"
    by (simp only: interpret_command_read read_command_parts parts_no_name dispatch_none)
  have b: "interpret_command env (''field ='' @ ws) fm sl st =
          Inr (RNone, log_error st ''skiping-empty-assignment''
            (''skipping configuration assignment with no right-hand-side ''
               @ quoted (''field ='' @ ws)) sl)" if "\<forall>c \<in> set ws. is_space c" for ws
    using strip_spaces_line[OF that]
    by (simp only: interpret_command_read read_command_parts parts_field_eq)
       (simp add: dispatch_empty_assignment)
  have c: "root_config (log_error st k txt sl) = root_config st"
    by (simp add: log_error_def)
  from a b c show ?thesis by blast
qed

theorem malformed_assignments_witness:
  "interpret_command env1 ''= 5'' False here state0 =
     Inr (RNone, log_error state0 ''unknown-command''
       (''couldn't interpret command '' @ quoted ''= 5'') here)
   \<and> interpret_command env1 ''field =  '' False here state0 =
       Inr (RNone, log_error state0 ''skiping-empty-assignment''
         (''skipping configuration assignment with no right-hand-side ''
            @ quoted ''field =  '') here)
   \<and> root_config (log_error state0 ''skiping-empty-assignment'' ''m'' here) = root0"
proof -
  have s: "\<forall>c \<in> set ''  ''. is_space c"
    by (simp add: is_space_def)
  have r: "root_config state0 = root0"
    by (simp add: state0_def)
  note m = malformed_assignments[of env1 False here state0 "''skiping-empty-assignment''" "''m''"]
  from m have a: "interpret_command env1 ''= 5'' False here state0 =
     Inr (RNone, log_error state0 ''unknown-command''
       (''couldn't interpret command '' @ quoted ''= 5'') here)"
    by blast
  from m s have "interpret_command env1 (''field ='' @ ''  '') False here state0 =
       Inr (RNone, log_error state0 ''skiping-empty-assignment''
         (''skipping configuration assignment with no right-hand-side ''
            @ quoted (''field ='' @ ''  '')) here)"
    by blast
  then have b: "interpret_command env1 ''field =  '' False here state0 =
       Inr (RNone, log_error state0 ''skiping-empty-assignment''
         (''skipping configuration assignment with no right-hand-side ''
            @ quoted ''field =  '') here)"
    by simp
  from m r have c: "root_config (log_error state0 ''skiping-empty-assignment'' ''m'' here) = root0"
    by simp
  from a b c show ?thesis by blast
qed

text \<open>
  C1, as the code has it. A pass (other than one over the empty sequence flagged final)
  runs the enabled commands of the enabled messages in order, each under the flag "the
  pass is final and this message is the last one of the sequence", and it visits exactly
  those commands. A command whose text matches the command pattern with a leading \<open>!\<close>
  is skipped without any effect (no assignment, no dispatch, no diagnostic, result
  \<open>None\<close>) under a false flag. A command that matches with \<open>!\<close> under a true flag, or
  without \<open>!\<close> under either flag, is carried out: an empty assignment is reported, any
  other assignment goes to \<open>assign_field\<close>, an action goes to \<open>run_action\<close>. A text that
  does not match the pattern is reported as \<open>unknown-command\<close> under either flag. The
  flag read off the match is true exactly when the text begins with \<open>!\<close>.
\<close>

theorem exclamation_gate:
  "(msgs \<noteq> [] \<or> \<not> fin \<longrightarrow>
      interpret_commands env msgs w fin = run_visits env (visits fin msgs) w)
   \<and> (\<forall>flag c. (flag, c) \<in> set (visits fin msgs) \<longleftrightarrow>
        (\<exists>m \<in> set msgs. is_enabled m \<and> Cmd c \<in> set (content m) \<and> cmd_is_enabled c
           \<and> flag = (fin \<and> msg_ref m = msg_ref (last msgs))))
   \<and> (\<forall>nm eq rhs. read_command t = Some (True, nm, eq, rhs) \<longrightarrow>
        interpret_command env t False sl st = Inr (RNone, st))
   \<and> (\<forall>b nm eq rhs. read_command t = Some (b, nm, eq, rhs) \<and> (\<not> b \<or> fm) \<longrightarrow>
        interpret_command env t fm sl st =
          (if eq then
             (if rhs = [] then
                Inr (RNone, log_error st ''skiping-empty-assignment''
                  (''skipping configuration assignment with no right-hand-side ''
                     @ quoted t) sl)
              else
                (case assign_field env (root_config st) nm rhs sl (log st) of
                   (cfg', log') \<Rightarrow> Inr (RNone, st\<lparr>log := log', root_config := cfg'\<rparr>)))
           else run_action env b nm rhs sl st))
   \<and> (read_command t = None \<longrightarrow>
        interpret_command env t fm sl st =
          Inr (RNone, log_error st ''unknown-command''
            (''couldn't interpret command '' @ quoted t) sl))
   \<and> (\<forall>b nm eq rhs. read_command t = Some (b, nm, eq, rhs) \<longrightarrow>
        b = (t \<noteq> [] \<and> hd t = CHR ''!''))"
proof -
  have a: "msgs \<noteq> [] \<or> \<not> fin \<longrightarrow>
      interpret_commands env msgs w fin = run_visits env (visits fin msgs) w"
    using interpret_commands_visits by blast
  have b: "\<forall>flag c. (flag, c) \<in> set (visits fin msgs) \<longleftrightarrow>
        (\<exists>m \<in> set msgs. is_enabled m \<and> Cmd c \<in> set (content m) \<and> cmd_is_enabled c
           \<and> flag = (fin \<and> msg_ref m = msg_ref (last msgs)))"
    using visits_set by blast
  have c: "\<forall>nm eq rhs. read_command t = Some (True, nm, eq, rhs) \<longrightarrow>
        interpret_command env t False sl st = Inr (RNone, st)"
    by (simp add: interpret_command_read dispatch_closed)
  have d: "\<forall>b nm eq rhs. read_command t = Some (b, nm, eq, rhs) \<and> (\<not> b \<or> fm) \<longrightarrow>
        interpret_command env t fm sl st =
          (if eq then
             (if rhs = [] then
                Inr (RNone, log_error st ''skiping-empty-assignment''
                  (''skipping configuration assignment with no right-hand-side ''
                     @ quoted t) sl)
              else
                (case assign_field env (root_config st) nm rhs sl (log st) of
                   (cfg', log') \<Rightarrow> Inr (RNone, st\<lparr>log := log', root_config := cfg'\<rparr>)))
           else run_action env b nm rhs sl st)"
  proof (intro allI impI)
    fix b nm eq rhs
    assume h: "read_command t = Some (b, nm, eq, rhs) \<and> (\<not> b \<or> fm)"
    then have g: "\<not> b \<or> fm" by simp
    from h show "interpret_command env t fm sl st =
          (if eq then
             (if rhs = [] then
                Inr (RNone, log_error st ''skiping-empty-assignment''
                  (''skipping configuration assignment with no right-hand-side ''
                     @ quoted t) sl)
              else
                (case assign_field env (root_config st) nm rhs sl (log st) of
                   (cfg', log') \<Rightarrow> Inr (RNone, st\<lparr>log := log', root_config := cfg'\<rparr>)))
           else run_action env b nm rhs sl st)"
      by (simp only: interpret_command_read dispatch_open[OF g])
  qed
  have e: "read_command t = None \<longrightarrow>
        interpret_command env t fm sl st =
          Inr (RNone, log_error st ''unknown-command''
            (''couldn't interpret command '' @ quoted t) sl)"
    by (simp add: interpret_command_read dispatch_none)
  have f: "\<forall>b nm eq rhs. read_command t = Some (b, nm, eq, rhs) \<longrightarrow>
        b = (t \<noteq> [] \<and> hd t = CHR ''!'')"
    using read_command_bang by blast
  from a b c d e f show ?thesis by (intro conjI)
qed

theorem exclamation_gate_witness:
  "interpret_commands env1 [msg 10 [cmd 11 ''!echo a''], msg 20 [cmd 21 ''!echo b'']]
     (state0, slots0) True = Inr (state0, slots0(11 := RNone, 21 := RStr ''b''))
   \<and> interpret_command env1 ''!echo a'' False here state0 = Inr (RNone, state0)
   \<and> interpret_command env1 ''!echo b'' True here state0 = Inr (RStr ''b'', state0)
   \<and> interpret_command env1 ''echo c'' False here state0 = Inr (RStr ''c'', state0)
   \<and> interpret_command env1 ''+'' False here state0 =
       Inr (RNone, log_error state0 ''unknown-command''
         (''couldn't interpret command '' @ quoted ''+'') here)"
proof -
  have ra: "read_command ''!echo a'' = Some (True, ''echo'', False, ''a'')"
    by (simp add: read_command_parts text_eval)
  have rb: "read_command ''!echo b'' = Some (True, ''echo'', False, ''b'') \<and> (\<not> True \<or> True)"
    by (simp add: read_command_parts text_eval)
  have rc: "read_command ''echo c'' = Some (False, ''echo'', False, ''c'') \<and> (\<not> False \<or> False)"
    by (simp add: read_command_parts text_eval)
  have rd: "read_command ''+'' = None"
    by (simp add: read_command_parts text_eval)
  note ga = exclamation_gate[of "[msg 10 [cmd 11 ''!echo a''], msg 20 [cmd 21 ''!echo b'']]" True
      env1 "(state0, slots0)" "''!echo a''" here state0 False]
  note gb = exclamation_gate[of "[msg 10 [cmd 11 ''!echo a''], msg 20 [cmd 21 ''!echo b'']]" True
      env1 "(state0, slots0)" "''!echo b''" here state0 True]
  note gc = exclamation_gate[of "[]" False env1 "(state0, slots0)" "''echo c''" here state0 False]
  note gd = exclamation_gate[of "[]" False env1 "(state0, slots0)" "''+''" here state0 False]
  from ga[THEN conjunct2, THEN conjunct2, THEN conjunct1, rule_format, OF ra]
  have a: "interpret_command env1 ''!echo a'' False here state0 = Inr (RNone, state0)" .
  from gb[THEN conjunct2, THEN conjunct2, THEN conjunct2, THEN conjunct1, rule_format, OF rb]
  have "interpret_command env1 ''!echo b'' True here state0 =
      run_action env1 True ''echo'' ''b'' here state0"
    by simp
  then have b: "interpret_command env1 ''!echo b'' True here state0 = Inr (RStr ''b'', state0)"
    by (simp only: echo_runs)
  from gc[THEN conjunct2, THEN conjunct2, THEN conjunct2, THEN conjunct1, rule_format, OF rc]
  have "interpret_command env1 ''echo c'' False here state0 =
      run_action env1 False ''echo'' ''c'' here state0"
    by simp
  then have c: "interpret_command env1 ''echo c'' False here state0 = Inr (RStr ''c'', state0)"
    by (simp only: echo_runs)
  from gd[THEN conjunct2, THEN conjunct2, THEN conjunct2, THEN conjunct2, THEN conjunct1,
      rule_format, OF rd]
  have d: "interpret_command env1 ''+'' False here state0 =
       Inr (RNone, log_error state0 ''unknown-command''
         (''couldn't interpret command '' @ quoted ''+'') here)" .
  from ga[THEN conjunct1]
  have "interpret_commands env1 [msg 10 [cmd 11 ''!echo a''], msg 20 [cmd 21 ''!echo b'']]
     (state0, slots0) True =
     run_visits env1 (visits True [msg 10 [cmd 11 ''!echo a''], msg 20 [cmd 21 ''!echo b'']])
       (state0, slots0)"
    by simp
  then have e: "interpret_commands env1 [msg 10 [cmd 11 ''!echo a''], msg 20 [cmd 21 ''!echo b'']]
     (state0, slots0) True = Inr (state0, slots0(11 := RNone, 21 := RStr ''b''))"
    by (simp add: two_messages_visits visit_def a b)
  from e a b c d show ?thesis by (intro conjI)
qed

text \<open>
  C1, as it is stated, fails for a text that begins with \<open>!\<close> and does not match the
  command pattern: in a pass that is not final the lone \<open>!\<close> is not skipped silently, an
  \<open>unknown-command\<close> diagnostic is reported.
\<close>

theorem unparsed_bang_is_reported:
  "interpret_commands env1 [msg 1 [cmd 1 ''!'']] (state0, slots0) False =
     Inr (log_error state0 ''unknown-command'' (''couldn't interpret command '' @ quoted ''!'') here,
          slots0(1 := RNone))
   \<and> log (log_error state0 ''unknown-command'' (''couldn't interpret command '' @ quoted ''!'') here)
       \<noteq> log state0"
proof -
  have "interpret_command env1 ''!'' False here state0 =
      Inr (RNone, log_error state0 ''unknown-command''
        (''couldn't interpret command '' @ quoted ''!'') here)"
    by (simp only: interpret_command_read read_command_parts lone_bang dispatch_none)
  then have "interpret_commands env1 [msg 1 [cmd 1 ''!'']] (state0, slots0) False =
     Inr (log_error state0 ''unknown-command'' (''couldn't interpret command '' @ quoted ''!'') here,
          slots0(1 := RNone))"
    by (simp add: interpret_commands_def msg_def cmd_def is_same_def)
  then show ?thesis by (simp add: log_error_def)
qed

text \<open>
  C3, as the code has it. Interpreting one command raises exactly when the command is an
  action that passes the gate, the lookup yields one permitted action, and the function of
  that action raises: the exception is the function's. Every user-input error is an entry
  in the log and a result \<open>None\<close>: an unknown command, an empty assignment, an action
  that is not found, an exclamation-only action written without \<open>!\<close>, an ambiguous
  action name. A pass raises exactly when it is given the empty sequence flagged final
  (\<open>IndexError\<close>) or when, the commands before it having returned, a visited command
  raises; the commands after it are then not interpreted. When no action function raises,
  a pass over a sequence returns after running every visited command in order.
\<close>

theorem user_errors_are_reported_not_raised:
  "(interpret_command env t fm sl st = Inl e \<longleftrightarrow>
      (\<exists>b nm args a. read_command t = Some (b, nm, False, args) \<and> (\<not> b \<or> fm)
         \<and> lookup_action env (private_core_state st) nm = [a] \<and> (\<not> exclamation_only a \<or> b)
         \<and> action_function env a nm args
              \<lparr>ctx_root_config = root_config st, ctx_plugin_config = plugin_config a,
               ctx_source_loc = sl, ctx_log = log st\<rparr> st = Inl e))
   \<and> (read_command t = None \<longrightarrow>
        interpret_command env t fm sl st =
          Inr (RNone, log_error st ''unknown-command''
            (''couldn't interpret command '' @ quoted t) sl))
   \<and> (\<forall>b nm. read_command t = Some (b, nm, True, []) \<and> (\<not> b \<or> fm) \<longrightarrow>
        interpret_command env t fm sl st =
          Inr (RNone, log_error st ''skiping-empty-assignment''
            (''skipping configuration assignment with no right-hand-side '' @ quoted t) sl))
   \<and> (\<forall>b nm args. read_command t = Some (b, nm, False, args) \<and> (\<not> b \<or> fm) \<longrightarrow>
        (lookup_action env (private_core_state st) nm = [] \<longrightarrow>
           interpret_command env t fm sl st =
             Inr (RNone, log_error st ''action-not-found''
               (''couldn't run action '' @ quoted nm @ ''. action not found.'') sl))
        \<and> (\<forall>a. lookup_action env (private_core_state st) nm = [a] \<and> exclamation_only a
               \<and> \<not> b \<longrightarrow>
             interpret_command env t fm sl st =
               Inr (RNone, log_error st ''excl-only-action-without-excl''
                 (''didn't run action '' @ quoted nm
                    @ ''. action is !-only but written without a '' @ quoted ''!'') sl))
        \<and> (\<forall>a1 a2 as. lookup_action env (private_core_state st) nm = a1 # a2 # as \<longrightarrow>
             (\<exists>alts. interpret_command env t fm sl st =
                Inr (RNone, log_error st ''ambiguous-action-name''
                  (''didn't run action '' @ quoted nm
                     @ ''. action name is ambiguous, did you mean: '' @ alts) sl))))
   \<and> (interpret_commands env msgs w fin = Inl e \<longleftrightarrow>
        (msgs = [] \<and> fin \<and> e = IndexError)
        \<or> (\<exists>pre v post w1. visits fin msgs = pre @ v # post \<and> run_visits env pre w = Inr w1
             \<and> interpret_command env (cmd_text (snd v)) (fst v) (cmd_source_loc (snd v)) (fst w1)
                 = Inl e))
   \<and> (no_raise env \<and> (msgs \<noteq> [] \<or> \<not> fin) \<longrightarrow>
        (\<exists>w'. interpret_commands env msgs w fin = Inr w'
             \<and> run_visits env (visits fin msgs) w = Inr w'))"
proof -
  have c2: "read_command t = None \<longrightarrow>
        interpret_command env t fm sl st =
          Inr (RNone, log_error st ''unknown-command''
            (''couldn't interpret command '' @ quoted t) sl)"
    by (simp add: interpret_command_read dispatch_none)
  have c3: "\<forall>b nm. read_command t = Some (b, nm, True, []) \<and> (\<not> b \<or> fm) \<longrightarrow>
        interpret_command env t fm sl st =
          Inr (RNone, log_error st ''skiping-empty-assignment''
            (''skipping configuration assignment with no right-hand-side '' @ quoted t) sl)"
    by (auto simp: interpret_command_read dispatch_empty_assignment)
  have c4: "\<forall>b nm args. read_command t = Some (b, nm, False, args) \<and> (\<not> b \<or> fm) \<longrightarrow>
        (lookup_action env (private_core_state st) nm = [] \<longrightarrow>
           interpret_command env t fm sl st =
             Inr (RNone, log_error st ''action-not-found''
               (''couldn't run action '' @ quoted nm @ ''. action not found.'') sl))
        \<and> (\<forall>a. lookup_action env (private_core_state st) nm = [a] \<and> exclamation_only a
               \<and> \<not> b \<longrightarrow>
             interpret_command env t fm sl st =
               Inr (RNone, log_error st ''excl-only-action-without-excl''
                 (''didn't run action '' @ quoted nm
                    @ ''. action is !-only but written without a '' @ quoted ''!'') sl))
        \<and> (\<forall>a1 a2 as. lookup_action env (private_core_state st) nm = a1 # a2 # as \<longrightarrow>
             (\<exists>alts. interpret_command env t fm sl st =
                Inr (RNone, log_error st ''ambiguous-action-name''
                  (''didn't run action '' @ quoted nm
                     @ ''. action name is ambiguous, did you mean: '' @ alts) sl)))"
  proof (intro allI impI)
    fix b nm args
    assume h: "read_command t = Some (b, nm, False, args) \<and> (\<not> b \<or> fm)"
    then have run: "interpret_command env t fm sl st = run_action env b nm args sl st"
      by (auto simp: interpret_command_read dispatch_action)
    show "(lookup_action env (private_core_state st) nm = [] \<longrightarrow>
           interpret_command env t fm sl st =
             Inr (RNone, log_error st ''action-not-found''
               (''couldn't run action '' @ quoted nm @ ''. action not found.'') sl))
        \<and> (\<forall>a. lookup_action env (private_core_state st) nm = [a] \<and> exclamation_only a
               \<and> \<not> b \<longrightarrow>
             interpret_command env t fm sl st =
               Inr (RNone, log_error st ''excl-only-action-without-excl''
                 (''didn't run action '' @ quoted nm
                    @ ''. action is !-only but written without a '' @ quoted ''!'') sl))
        \<and> (\<forall>a1 a2 as. lookup_action env (private_core_state st) nm = a1 # a2 # as \<longrightarrow>
             (\<exists>alts. interpret_command env t fm sl st =
                Inr (RNone, log_error st ''ambiguous-action-name''
                  (''didn't run action '' @ quoted nm
                     @ ''. action name is ambiguous, did you mean: '' @ alts) sl)))"
      unfolding run
      using run_action_none[of env st nm b args sl] run_action_many[of env st nm _ _ _ b args sl]
      by (auto simp: run_action_one)
  qed
  have c6: "no_raise env \<and> (msgs \<noteq> [] \<or> \<not> fin) \<longrightarrow>
        (\<exists>w'. interpret_commands env msgs w fin = Inr w'
             \<and> run_visits env (visits fin msgs) w = Inr w')"
    using run_visits_returns[of env "visits fin msgs" w]
    by (auto simp: interpret_commands_visits)
  from interpret_command_raises_iff[of env t fm sl st e] c2 c3 c4
    interpret_commands_raises_iff[of env msgs w fin e] c6
  show ?thesis by (intro conjI)
qed

theorem user_errors_are_reported_not_raised_witness:
  "interpret_command env1 ''= 5'' False here state0 =
     Inr (RNone, log_error state0 ''unknown-command''
       (''couldn't interpret command '' @ quoted ''= 5'') here)
   \<and> interpret_command env1 ''nope'' False here state0 =
       Inr (RNone, log_error state0 ''action-not-found''
         (''couldn't run action '' @ quoted ''nope'' @ ''. action not found.'') here)
   \<and> (\<exists>w'. interpret_commands env1 [msg 10 [cmd 11 ''= 5'', cmd 12 ''nope'', cmd 13 ''dup'']]
              (state0, slots0) False = Inr w')
   \<and> interpret_command env0 ''boom'' False here state0 = Inl (Raised ''boom'')"
proof -
  let ?msgs = "[msg 10 [cmd 11 ''= 5'', cmd 12 ''nope'', cmd 13 ''dup'']]"
  have r1: "read_command ''= 5'' = None"
    by (simp add: read_command_parts text_eval)
  have r2: "read_command ''nope'' = Some (False, ''nope'', False, []) \<and> (\<not> False \<or> False)"
    by (simp add: read_command_parts text_eval)
  have l2: "lookup_action env1 (private_core_state state0) ''nope'' = []"
    by (simp add: env1_def spec_env_def lookup0_def)
  have n: "no_raise env1 \<and> (?msgs \<noteq> [] \<or> \<not> False)"
    using no_raise_env1 by simp
  have r4: "\<exists>b nm args a. read_command ''boom'' = Some (b, nm, False, args) \<and> (\<not> b \<or> False)
         \<and> lookup_action env0 (private_core_state state0) nm = [a] \<and> (\<not> exclamation_only a \<or> b)
         \<and> action_function env0 a nm args
              \<lparr>ctx_root_config = root_config state0, ctx_plugin_config = plugin_config a,
               ctx_source_loc = here, ctx_log = log state0\<rparr> state0 = Inl (Raised ''boom'')"
  proof -
    have "read_command ''boom'' = Some (False, ''boom'', False, []) \<and> (\<not> False \<or> False)
         \<and> lookup_action env0 (private_core_state state0) ''boom'' = [act ''test.boom'' False]
         \<and> (\<not> exclamation_only (act ''test.boom'' False) \<or> False)
         \<and> action_function env0 (act ''test.boom'' False) ''boom'' []
              \<lparr>ctx_root_config = root_config state0,
               ctx_plugin_config = plugin_config (act ''test.boom'' False),
               ctx_source_loc = here, ctx_log = log state0\<rparr> state0 = Inl (Raised ''boom'')"
      by (simp add: read_command_parts text_eval env0_def spec_env_def lookup0_def fn0_def act_def)
    then show ?thesis by blast
  qed
  note u1 = user_errors_are_reported_not_raised[of env1 "''= 5''" False here state0
      "Raised ''x''" ?msgs "(state0, slots0)" False]
  note u2 = user_errors_are_reported_not_raised[of env1 "''nope''" False here state0
      "Raised ''x''" ?msgs "(state0, slots0)" False]
  note u4 = user_errors_are_reported_not_raised[of env0 "''boom''" False here state0
      "Raised ''boom''" ?msgs "(state0, slots0)" False]
  from u1[THEN conjunct2, THEN conjunct1, rule_format, OF r1]
  have a: "interpret_command env1 ''= 5'' False here state0 =
     Inr (RNone, log_error state0 ''unknown-command''
       (''couldn't interpret command '' @ quoted ''= 5'') here)" .
  from u2[THEN conjunct2, THEN conjunct2, THEN conjunct2, THEN conjunct1, rule_format, OF r2,
      THEN conjunct1, rule_format, OF l2]
  have b: "interpret_command env1 ''nope'' False here state0 =
       Inr (RNone, log_error state0 ''action-not-found''
         (''couldn't run action '' @ quoted ''nope'' @ ''. action not found.'') here)" .
  from u1[THEN conjunct2, THEN conjunct2, THEN conjunct2, THEN conjunct2, THEN conjunct2,
      rule_format, OF n]
  have c: "\<exists>w'. interpret_commands env1 ?msgs (state0, slots0) False = Inr w'"
    by blast
  from u4[THEN conjunct1] r4
  have d: "interpret_command env0 ''boom'' False here state0 = Inl (Raised ''boom'')"
    by (rule iffD2)
  from a b c d show ?thesis by (intro conjI)
qed

text \<open>
  C3, as it is stated, fails: the interpreter has no handler around the call of an action
  function. When the first command's action raises, the exception leaves
  \<open>interpret_commands\<close> and the assignment that follows is never interpreted.
\<close>

theorem action_exception_ends_the_pass:
  "interpret_commands env0 [msg 10 [cmd 11 ''boom'', cmd 12 ''model = x'']]
     (state0, slots0) False = Inl (Raised ''boom'')"
  by (simp add: interpret_commands_def msg_def cmd_def is_same_def boom_raises)

text \<open>
  C7. A command text made of optional white space, a name, optional white space, an equals
  sign and a value whose first line is not blank, with no leading \<open>!\<close>: in every pass
  \<open>_interpret_command\<close> hands the name and the stripped value to \<open>assign_field\<close>. With
  \<open>assign_field\<close> as the specification describes it, a field that exists and a value that
  converts, the named field of the root configuration becomes the converted value, and
  interpreting the same text again leaves the state exactly as the first time did.
\<close>

theorem assignment_sets_field_idempotent:
  assumes "nm \<noteq> []" and "\<forall>c \<in> set nm. is_name_char c"
    and "\<forall>c \<in> set ws0. is_space c" and "\<forall>c \<in> set ws1. is_space c"
    and "strip (takeWhile is_dot val) = rhs" and "rhs \<noteq> []"
    and "root_config st nm = Some f" and "convert (declared_type f) rhs = Some v"
  shows "interpret_command (spec_env convert lookup fn) (ws0 @ nm @ ws1 @ ''='' @ val) fm sl st =
           Inr (RNone, st\<lparr>root_config := (root_config st)
                  (nm \<mapsto> f\<lparr>field_value := v, explicitly_assigned := True\<rparr>)\<rparr>)
       \<and> interpret_command (spec_env convert lookup fn) (ws0 @ nm @ ws1 @ ''='' @ val) fm sl
           (st\<lparr>root_config := (root_config st)
                  (nm \<mapsto> f\<lparr>field_value := v, explicitly_assigned := True\<rparr>)\<rparr>) =
           Inr (RNone, st\<lparr>root_config := (root_config st)
                  (nm \<mapsto> f\<lparr>field_value := v, explicitly_assigned := True\<rparr>)\<rparr>)"
proof -
  let ?env = "spec_env convert lookup fn"
  let ?t = "ws0 @ nm @ ws1 @ ''='' @ val"
  let ?f = "f\<lparr>field_value := v, explicitly_assigned := True\<rparr>"
  let ?st = "st\<lparr>root_config := (root_config st)(nm \<mapsto> ?f)\<rparr>"
  have parts: "read_command ?t = Some (False, nm, True, rhs)"
    using assignment_parts[OF assms(1-4), of val] assms(5) by (simp only: read_command_parts)
  have step: "interpret_command ?env ?t fm sl s =
      (case assign_field_spec convert (root_config s) nm rhs sl (log s) of
        (cfg', log') \<Rightarrow> Inr (RNone, s\<lparr>log := log', root_config := cfg'\<rparr>))" for s
    unfolding interpret_command_read parts
    using assms(6) by (simp add: dispatch_assignment spec_env_def)
  have one: "interpret_command ?env ?t fm sl st = Inr (RNone, ?st)"
    unfolding step
    using assign_field_spec_ok[where root = "root_config st" and nm = nm and f = f
        and convert = convert and rhs = rhs and v = v, OF assms(7,8)]
    by simp
  have f': "root_config ?st nm = Some ?f" "convert (declared_type ?f) rhs = Some v"
    using assms(8) by simp_all
  have two: "interpret_command ?env ?t fm sl ?st = Inr (RNone, ?st)"
    unfolding step
    using assign_field_spec_ok[where root = "root_config ?st" and nm = nm and f = ?f
        and convert = convert and rhs = rhs and v = v, OF f']
    by simp
  from one two show ?thesis by (rule conjI)
qed

theorem assignment_sets_field_idempotent_witness:
  "interpret_command env1 ''model = gpt'' False here state0 =
     Inr (RNone, state0\<lparr>root_config := root0(''model'' \<mapsto>
        \<lparr>declared_type = TStr, field_value = VStr ''gpt'', explicitly_assigned = True\<rparr>)\<rparr>)
   \<and> interpret_command env1 ''model = gpt'' False here
       (state0\<lparr>root_config := root0(''model'' \<mapsto>
        \<lparr>declared_type = TStr, field_value = VStr ''gpt'', explicitly_assigned = True\<rparr>)\<rparr>) =
     Inr (RNone, state0\<lparr>root_config := root0(''model'' \<mapsto>
        \<lparr>declared_type = TStr, field_value = VStr ''gpt'', explicitly_assigned = True\<rparr>)\<rparr>)"
proof -
  have h1: "''model'' \<noteq> []" "\<forall>c \<in> set ''model''. is_name_char c"
    "\<forall>c \<in> set []. is_space c" "\<forall>c \<in> set '' ''. is_space c"
    by (simp_all add: class_eval)
  have h2: "strip (takeWhile is_dot '' gpt'') = ''gpt''" "''gpt'' \<noteq> []"
    by (simp_all add: strip_def is_dot_def newline_def class_eval)
  have h3: "root_config state0 ''model'' = Some \<lparr>declared_type = TStr, field_value = VStr ''none'',
      explicitly_assigned = False\<rparr>"
    by (simp add: state0_def root0_def)
  have h4: "convert_text (declared_type \<lparr>declared_type = TStr, field_value = VStr ''none'',
      explicitly_assigned = False\<rparr>) ''gpt'' = Some (VStr ''gpt'')"
    by (simp add: convert_text_def)
  have r: "root_config state0 = root0"
    by (simp add: state0_def)
  from assignment_sets_field_idempotent[where nm = "''model''" and ?ws0.0 = "[]"
      and ?ws1.0 = "'' ''" and val = "'' gpt''" and rhs = "''gpt''" and st = state0
      and f = "\<lparr>declared_type = TStr, field_value = VStr ''none'', explicitly_assigned = False\<rparr>"
      and convert = convert_text and v = "VStr ''gpt''" and lookup = lookup0 and fn = fn1
      and fm = False and sl = here, OF h1 h2 h3 h4]
  show ?thesis by (simp add: env1_def r)
qed

text \<open>
  C2. Resolving a configuration object gives each field bound to a \<open>VarRef\<close> the current
  value at the referenced path of the root configuration when that path was explicitly
  assigned, and the field's own value otherwise. Resolution is a function of the object and
  of the root configuration as it is at that moment: after an assignment to the path, the
  next resolution yields the assigned value.
\<close>

theorem var_ref_resolution:
  assumes "map_of (var_refs config) fld = Some (VarRef path)"
    and "get_field config fld = Some local_value"
  shows "get_field (resolve_var_refs config root) fld =
           Some (case root path of
                   None \<Rightarrow> local_value
                 | Some f \<Rightarrow> if explicitly_assigned f then field_value f else local_value)
       \<and> (\<forall>f rhs v sl lg. root path = Some f \<and> convert (declared_type f) rhs = Some v \<longrightarrow>
            get_field (resolve_var_refs config
              (fst (assign_field_spec convert root path rhs sl lg))) fld = Some v)"
proof -
  have eff: "effective_value r (var_refs config) fld local_value =
      (case r path of
         None \<Rightarrow> local_value
       | Some f \<Rightarrow> if explicitly_assigned f then field_value f else local_value)" for r
    using assms(1) by (simp add: effective_value_def)
  have a: "get_field (resolve_var_refs config r) fld =
           Some (case r path of
                   None \<Rightarrow> local_value
                 | Some f \<Rightarrow> if explicitly_assigned f then field_value f else local_value)" for r
    using assms(2) by (simp add: get_field_resolved eff)
  have b: "get_field (resolve_var_refs config
              (fst (assign_field_spec convert root path rhs sl lg))) fld = Some v"
    if "root path = Some f" "convert (declared_type f) rhs = Some v" for f rhs v sl lg
    unfolding a using that by (simp add: assign_field_spec_def)
  from a[of root] b show ?thesis by blast
qed

theorem var_ref_resolution_witness:
  "get_field (resolve_var_refs construct_configuration root0) ''model'' = Some (VStr ''test'')
   \<and> get_field (resolve_var_refs construct_configuration
        (fst (assign_field_spec convert_text root0 ''model'' ''gpt'' here []))) ''model''
       = Some (VStr ''gpt'')"
proof -
  have h1: "map_of (var_refs construct_configuration) ''model'' = Some (VarRef ''model'')"
    by (simp add: construct_configuration_def)
  have h2: "get_field construct_configuration ''model'' = Some (VStr ''test'')"
    by (simp add: get_field_def construct_configuration_def TestResponderConfiguration_def)
  note v = var_ref_resolution[where config = construct_configuration and fld = "''model''"
      and path = "''model''" and local_value = "VStr ''test''" and root = root0
      and convert = convert_text, OF h1 h2]
  from v[THEN conjunct1] have a:
    "get_field (resolve_var_refs construct_configuration root0) ''model'' = Some (VStr ''test'')"
    by (simp add: root0_def)
  have h3: "root0 ''model'' = Some \<lparr>declared_type = TStr, field_value = VStr ''none'',
      explicitly_assigned = False\<rparr> \<and> convert_text (declared_type \<lparr>declared_type = TStr,
      field_value = VStr ''none'', explicitly_assigned = False\<rparr>) ''gpt'' = Some (VStr ''gpt'')"
    by (simp add: root0_def convert_text_def)
  from v[THEN conjunct2, rule_format, OF h3]
  have b: "get_field (resolve_var_refs construct_configuration
        (fst (assign_field_spec convert_text root0 ''model'' ''gpt'' here []))) ''model''
       = Some (VStr ''gpt'')" .
  from a b show ?thesis by (rule conjI)
qed

end
